theory Spec2Isabelle
  imports Complex_Main "HOL-Library.Multiset"
begin

section \<open>JavaScript numbers\<close>

text \<open>
  A JavaScript number is an IEEE 754 double: \<open>NaN\<close>, one of the two infinities, or a
  finite value, held as the real number it denotes. An arithmetic operation rounds its
  exact result to the nearest double, ties to even, with gradual underflow and overflow
  to infinity (\<open>round64\<close>). The sign of zero is not modelled; the source never divides
  by a zero and comparisons do not see it.
\<close>

datatype jsnum = NaN | PInf | NInf | Fin real

text \<open>
  The binary exponent of the binade of \<open>x\<close>, not below that of the smallest normal
  double, and the spacing of the doubles in that binade.
\<close>

definition bexp :: "real \<Rightarrow> int" where
  "bexp x = max \<lfloor>log 2 \<bar>x\<bar>\<rfloor> (- 1022)"

definition ulp :: "real \<Rightarrow> real" where
  "ulp x = 2 powi (bexp x - 52)"

text \<open>The nearest integer, a tie going to the even one.\<close>

definition rne :: "real \<Rightarrow> int" where
  "rne y =
     (if y - of_int \<lfloor>y\<rfloor> < 1 / 2 then \<lfloor>y\<rfloor>
      else if 1 / 2 < y - of_int \<lfloor>y\<rfloor> then \<lfloor>y\<rfloor> + 1
      else if even \<lfloor>y\<rfloor> then \<lfloor>y\<rfloor> else \<lfloor>y\<rfloor> + 1)"

text \<open>
  The double nearest to a real: a multiple of the spacing with a significand of at most
  53 bits, or an infinity when the rounded magnitude reaches \<open>2^1024\<close>.
\<close>

definition round64 :: "real \<Rightarrow> jsnum" where
  "round64 x =
     (if 2 powi 1024 \<le> \<bar>of_int (rne (x / ulp x)) * ulp x\<bar>
      then (if 0 < x then PInf else NInf)
      else Fin (of_int (rne (x / ulp x)) * ulp x))"

fun jneg :: "jsnum \<Rightarrow> jsnum" where
  "jneg NaN = NaN"
| "jneg PInf = NInf"
| "jneg NInf = PInf"
| "jneg (Fin a) = Fin (- a)"

text \<open>The operator \<open>+\<close> on numbers.\<close>

fun jadd :: "jsnum \<Rightarrow> jsnum \<Rightarrow> jsnum" where
  "jadd (Fin a) (Fin b) = round64 (a + b)"
| "jadd NaN b = NaN"
| "jadd a NaN = NaN"
| "jadd PInf NInf = NaN"
| "jadd NInf PInf = NaN"
| "jadd PInf b = PInf"
| "jadd a PInf = PInf"
| "jadd NInf b = NInf"
| "jadd a NInf = NInf"

text \<open>The operator \<open>-\<close> on numbers.\<close>

definition jsub :: "jsnum \<Rightarrow> jsnum \<Rightarrow> jsnum" where
  "jsub a b = jadd a (jneg b)"

text \<open>The sign of a number as \<open>-1\<close>, \<open>0\<close> or \<open>1\<close> (\<open>0\<close> for \<open>NaN\<close>).\<close>

fun jsign :: "jsnum \<Rightarrow> int" where
  "jsign NaN = 0"
| "jsign PInf = 1"
| "jsign NInf = - 1"
| "jsign (Fin a) = (if a = 0 then 0 else if 0 < a then 1 else - 1)"

text \<open>The operator \<open>*\<close> on numbers: infinity times zero is \<open>NaN\<close>.\<close>

fun jmul :: "jsnum \<Rightarrow> jsnum \<Rightarrow> jsnum" where
  "jmul (Fin a) (Fin b) = round64 (a * b)"
| "jmul NaN b = NaN"
| "jmul a NaN = NaN"
| "jmul a b =
     (if jsign a * jsign b = 0 then NaN
      else if 0 < jsign a * jsign b then PInf else NInf)"

text \<open>
  The operator \<open>/\<close> on numbers. A zero divisor is read as \<open>+0\<close>; the source divides
  only by \<open>values.length\<close> (at least 1 behind the guard) and by the literal 100.
\<close>

fun jdiv :: "jsnum \<Rightarrow> jsnum \<Rightarrow> jsnum" where
  "jdiv NaN b = NaN"
| "jdiv a NaN = NaN"
| "jdiv (Fin a) (Fin b) =
     (if b \<noteq> 0 then round64 (a / b)
      else if a = 0 then NaN else if 0 < a then PInf else NInf)"
| "jdiv (Fin a) b = Fin 0"
| "jdiv a (Fin b) = (if 0 \<le> b then a else jneg a)"
| "jdiv a b = NaN"

text \<open>
  \<open>Math.pow(x, 2)\<close>, taken as the correctly rounded square (the language leaves the
  precision of \<open>Math.pow\<close> to the implementation).
\<close>

definition jpow2 :: "jsnum \<Rightarrow> jsnum" where
  "jpow2 a = jmul a a"

text \<open>\<open>Math.sqrt\<close>: \<open>NaN\<close> below zero, else the correctly rounded root.\<close>

fun jsqrt :: "jsnum \<Rightarrow> jsnum" where
  "jsqrt NaN = NaN"
| "jsqrt PInf = PInf"
| "jsqrt NInf = NaN"
| "jsqrt (Fin a) = (if a < 0 then NaN else round64 (sqrt a))"

text \<open>
  \<open>Math.round\<close>: the nearest integer, halves towards \<open>+\<infinity>\<close>. The result is exact:
  it is a double whenever the argument is.
\<close>

fun jround :: "jsnum \<Rightarrow> jsnum" where
  "jround (Fin a) = Fin (of_int \<lfloor>a + 1 / 2\<rfloor>)"
| "jround a = a"

text \<open>The comparisons \<open>></\<close>, \<open>>=\<close> and \<open><=\<close>: false as soon as an operand is \<open>NaN\<close>.\<close>

fun jgt :: "jsnum \<Rightarrow> jsnum \<Rightarrow> bool" where
  "jgt NaN b = False"
| "jgt a NaN = False"
| "jgt (Fin a) (Fin b) = (b < a)"
| "jgt PInf PInf = False"
| "jgt PInf b = True"
| "jgt a PInf = False"
| "jgt NInf b = False"
| "jgt a NInf = True"

fun jge :: "jsnum \<Rightarrow> jsnum \<Rightarrow> bool" where
  "jge NaN b = False"
| "jge a NaN = False"
| "jge a b = (\<not> jgt b a)"

definition jle :: "jsnum \<Rightarrow> jsnum \<Rightarrow> bool" where
  "jle a b = jge b a"

section \<open>Samples and the view state\<close>

text \<open>
  A time value is the number of milliseconds a \<open>Date\<close> holds, \<open>None\<close> for an
  invalid date. A processed sample is the object
  \<open>{ time, value, timestamp }\<close> built by the page.
\<close>

type_synonym timeval = "int option"

record sample =
  s_time :: string
  s_value :: jsnum
  s_timestamp :: timeval

datatype toast = ToastWarning string | ToastError string

text \<open>
  The \<open>useState\<close> cells the pipeline reads and writes, and the notifications sent
  to the toast collaborator, in order.
\<close>

record state =
  siteId :: string
  pollutantType :: string
  startDate :: string
  endDate :: string
  graphData :: "sample list"
  loading :: bool
  lastUpdated :: timeval
  anomalies :: "sample list"
  toasts :: "toast list"

section \<open>Anomaly detection\<close>

text \<open>
  \<open>detectAnomalies\<close>: returns without touching the state on an empty series; otherwise
  computes mean and standard deviation with two \<open>reduce\<close> folds and stores the
  samples above the threshold with \<open>setAnomalies\<close>.
\<close>

definition detect_mean :: "jsnum list \<Rightarrow> jsnum" where
  "detect_mean values =
     jdiv (foldl (\<lambda>sum val. jadd sum val) (Fin 0) values) (Fin (real (length values)))"

definition detect_stdDev :: "jsnum list \<Rightarrow> jsnum" where
  "detect_stdDev values =
     jsqrt (jdiv (foldl (\<lambda>sum val. jadd sum (jpow2 (jsub val (detect_mean values))))
                    (Fin 0) values)
                 (Fin (real (length values))))"

definition detect_threshold :: "jsnum list \<Rightarrow> jsnum" where
  "detect_threshold values =
     jadd (detect_mean values) (jmul (Fin 3) (detect_stdDev values))"

definition detectAnomalies :: "sample list \<Rightarrow> state \<Rightarrow> state" where
  "detectAnomalies data st =
     (if data = [] then st
      else st\<lparr>anomalies :=
             filter (\<lambda>item. jgt (s_value item) (detect_threshold (map s_value data))) data\<rparr>)"



fun is_fin :: "jsnum \<Rightarrow> bool" where
  "is_fin (Fin a) = True"
| "is_fin a = False"




section \<open>JSON values and the built-ins the pipeline calls\<close>

text \<open>
  The values \<open>response.data\<close> can hold after JSON parsing, and \<open>Date\<close> objects (the
  page stores them in processed samples). An object is the list of its own properties;
  the first pair with a given key is the property's value.
\<close>

datatype jsval =
    JUndefined
  | JNull
  | JBool bool
  | JNum jsnum
  | JStr string
  | JDate timeval
  | JArr "jsval list"
  | JObj "(string \<times> jsval) list"

datatype error = TypeError

text \<open>
  Property read \<open>item[key]\<close>: a \<open>TypeError\<close> on \<open>undefined\<close> and \<open>null\<close>, the own
  property of an object, \<open>undefined\<close> when it is absent. The keys the source reads are
  \<open>timestamp\<close>, \<open>pm2.5cnc\<close> and \<open>pm10cnc\<close>; primitives, arrays and dates have no
  property of these names.
\<close>

fun get_prop :: "jsval \<Rightarrow> string \<Rightarrow> error + jsval" where
  "get_prop JUndefined k = Inl TypeError"
| "get_prop JNull k = Inl TypeError"
| "get_prop (JObj fs) k = Inr (case map_of fs k of None \<Rightarrow> JUndefined | Some v \<Rightarrow> v)"
| "get_prop v k = Inr JUndefined"

text \<open>\<open>ToBoolean\<close>, as the operator \<open>||\<close> applies it.\<close>

fun truthy :: "jsval \<Rightarrow> bool" where
  "truthy JUndefined = False"
| "truthy JNull = False"
| "truthy (JBool b) = b"
| "truthy (JNum n) = (n \<noteq> NaN \<and> n \<noteq> Fin 0)"
| "truthy (JStr s) = (s \<noteq> [])"
| "truthy v = True"

text \<open>\<open>a || b\<close>.\<close>

definition js_or :: "jsval \<Rightarrow> jsval \<Rightarrow> jsval" where
  "js_or a b = (if truthy a then a else b)"

definition is_digit :: "char \<Rightarrow> bool" where
  "is_digit c = (c \<in> set ''0123456789'')"

text \<open>
  A string is held as its UTF-8 bytes. The white space and line terminators that
  \<open>parseFloat\<close> skips: six ASCII characters, U+00A0 in two bytes, and U+1680,
  U+2000 to U+200A, U+2028, U+2029, U+202F, U+205F, U+3000 and U+FEFF in three.
\<close>

definition is_space :: "char \<Rightarrow> bool" where
  "is_space c = (c \<in> set [CHR 0x09, CHR 0x0A, CHR 0x0B, CHR 0x0C, CHR 0x0D, CHR 0x20])"

definition wide_spaces :: "string list" where
  "wide_spaces =
     [[CHR 0xE1, CHR 0x9A, CHR 0x80],
      [CHR 0xE2, CHR 0x80, CHR 0x80], [CHR 0xE2, CHR 0x80, CHR 0x81],
      [CHR 0xE2, CHR 0x80, CHR 0x82], [CHR 0xE2, CHR 0x80, CHR 0x83],
      [CHR 0xE2, CHR 0x80, CHR 0x84], [CHR 0xE2, CHR 0x80, CHR 0x85],
      [CHR 0xE2, CHR 0x80, CHR 0x86], [CHR 0xE2, CHR 0x80, CHR 0x87],
      [CHR 0xE2, CHR 0x80, CHR 0x88], [CHR 0xE2, CHR 0x80, CHR 0x89],
      [CHR 0xE2, CHR 0x80, CHR 0x8A], [CHR 0xE2, CHR 0x80, CHR 0xA8],
      [CHR 0xE2, CHR 0x80, CHR 0xA9], [CHR 0xE2, CHR 0x80, CHR 0xAF],
      [CHR 0xE2, CHR 0x81, CHR 0x9F], [CHR 0xE3, CHR 0x80, CHR 0x80],
      [CHR 0xEF, CHR 0xBB, CHR 0xBF]]"

text \<open>The number of bytes of the white-space character a string starts with, 0 if none.\<close>

definition space_prefix :: "string \<Rightarrow> nat" where
  "space_prefix s =
     (case s of
        [] \<Rightarrow> 0
      | c # t \<Rightarrow>
          if is_space c then 1
          else if take 2 s = [CHR 0xC2, CHR 0xA0] then 2
          else if take 3 s \<in> set wide_spaces then 3
          else 0)"

function skip_space :: "string \<Rightarrow> string" where
  "skip_space s = (if space_prefix s = 0 then s else skip_space (drop (space_prefix s) s))"
  by pat_completeness auto
termination
  by (relation "measure length") (auto simp: space_prefix_def split: list.splits if_splits)

declare skip_space.simps [simp del]

definition digit_val :: "char \<Rightarrow> nat" where
  "digit_val c = of_char c - 48"

definition dec_val :: "string \<Rightarrow> nat" where
  "dec_val ds = foldl (\<lambda>n c. 10 * n + digit_val c) 0 ds"

definition scale10 :: "real \<Rightarrow> int \<Rightarrow> real" where
  "scale10 m e = (if 0 \<le> e then m * 10 ^ nat e else m / 10 ^ nat (- e))"

text \<open>The exponent part \<open>e\<close>, \<open>e+\<close>, \<open>e-\<close> followed by digits; 0 when there is none.\<close>

definition exponent_part :: "string \<Rightarrow> int" where
  "exponent_part r =
     (case r of
        [] \<Rightarrow> 0
      | e # t \<Rightarrow>
          if e = CHR ''e'' \<or> e = CHR ''E'' then
            (case t of
               [] \<Rightarrow> 0
             | g # u \<Rightarrow>
                 if g = CHR ''+'' then int (dec_val (takeWhile is_digit u))
                 else if g = CHR ''-'' then - int (dec_val (takeWhile is_digit u))
                 else int (dec_val (takeWhile is_digit t)))
          else 0)"

text \<open>
  The longest prefix that is an unsigned decimal literal (\<open>Infinity\<close>, or digits with an
  optional fraction and exponent), as the double nearest to its value; \<open>NaN\<close> when no
  prefix is one.
\<close>

definition str_decimal :: "string \<Rightarrow> jsnum" where
  "str_decimal s =
     (if take 8 s = ''Infinity'' then PInf
      else
        let ip = takeWhile is_digit s;
            r1 = dropWhile is_digit s;
            fp = (case r1 of [] \<Rightarrow> []
                  | c # t \<Rightarrow> if c = CHR ''.'' then takeWhile is_digit t else []);
            r2 = (case r1 of [] \<Rightarrow> []
                  | c # t \<Rightarrow> if c = CHR ''.'' then dropWhile is_digit t else r1)
        in if ip = [] \<and> fp = [] then NaN
           else round64 (scale10 (real (dec_val ip) + real (dec_val fp) / 10 ^ length fp)
                          (exponent_part r2)))"

definition parse_float_str :: "string \<Rightarrow> jsnum" where
  "parse_float_str s =
     (case skip_space s of
        [] \<Rightarrow> NaN
      | c # u \<Rightarrow>
          if c = CHR ''-'' then jneg (str_decimal u)
          else if c = CHR ''+'' then str_decimal u
          else str_decimal (c # u))"

text \<open>
  \<open>parseFloat\<close>: the argument is converted to a string and its numeric prefix is read.
  A number prints and reads back as itself; an array prints as its elements joined by
  commas, so its first element decides; \<open>undefined\<close>, \<open>null\<close>, booleans, dates and
  plain objects print as text with no numeric prefix.
\<close>

fun parseFloat :: "jsval \<Rightarrow> jsnum" where
  "parseFloat (JNum n) = n"
| "parseFloat (JStr s) = parse_float_str s"
| "parseFloat (JArr []) = NaN"
| "parseFloat (JArr (x # xs)) = parseFloat x"
| "parseFloat v = NaN"

text \<open>
  What the page takes from the browser: the time value \<open>new Date(v)\<close> has for a value
  that is not a \<open>Date\<close> (string parsing is implementation-defined), the text
  \<open>toLocaleTimeString\<close> gives for a time value, and the local hour of a valid one.
\<close>

record platform =
  dateParse :: "jsval \<Rightarrow> timeval"
  localeTime :: "timeval \<Rightarrow> string"
  getHours :: "int \<Rightarrow> int"

text \<open>\<open>TimeClip\<close>: a \<open>Date\<close> is invalid beyond 8.64e15 milliseconds from the epoch.\<close>

definition time_clip :: "int \<Rightarrow> timeval" where
  "time_clip t = (if \<bar>t\<bar> \<le> 8640000000000000 then Some t else None)"

text \<open>Truncation towards zero.\<close>

definition trunc :: "real \<Rightarrow> int" where
  "trunc r = (if 0 \<le> r then \<lfloor>r\<rfloor> else \<lceil>r\<rceil>)"

text \<open>
  \<open>new Date(v)\<close>: a \<open>Date\<close> argument is copied, a number is the time value itself
  (truncated and clipped), anything else is left to the platform.
\<close>

definition newDate :: "platform \<Rightarrow> jsval \<Rightarrow> timeval" where
  "newDate pf v =
     (case v of
        JDate t \<Rightarrow> t
      | JNum n \<Rightarrow> (case n of Fin x \<Rightarrow> time_clip (trunc x) | _ \<Rightarrow> None)
      | _ \<Rightarrow> dateParse pf v)"

text \<open>A date read as a number (\<open>a.timestamp - b.timestamp\<close>): \<open>NaN\<close> when invalid.\<close>

fun time_num :: "timeval \<Rightarrow> jsnum" where
  "time_num None = NaN"
| "time_num (Some t) = Fin (of_int t)"

section \<open>Normalisation of the response\<close>

text \<open>The callback of \<open>response.data.map\<close>.\<close>

definition process_item :: "platform \<Rightarrow> string \<Rightarrow> jsval \<Rightarrow> error + sample" where
  "process_item pf paramKey item =
     (case get_prop item ''timestamp'' of
        Inl e \<Rightarrow> Inl e
      | Inr ts \<Rightarrow>
          (case get_prop item paramKey of
             Inl e \<Rightarrow> Inl e
           | Inr v \<Rightarrow>
               Inr \<lparr> s_time = localeTime pf (newDate pf ts),
                     s_value = parseFloat (js_or v (JNum (Fin 0))),
                     s_timestamp = newDate pf ts \<rparr>))"

text \<open>\<open>Array.prototype.map\<close> with a callback that may throw: the first throw ends it.\<close>

fun map_items :: "('a \<Rightarrow> error + 'b) \<Rightarrow> 'a list \<Rightarrow> error + 'b list" where
  "map_items f [] = Inr []"
| "map_items f (x # xs) =
     (case f x of
        Inl e \<Rightarrow> Inl e
      | Inr y \<Rightarrow> (case map_items f xs of Inl e \<Rightarrow> Inl e | Inr ys \<Rightarrow> Inr (y # ys)))"

text \<open>The comparator \<open>(a, b) => a.timestamp - b.timestamp\<close>.\<close>

definition compare_ts :: "sample \<Rightarrow> sample \<Rightarrow> jsnum" where
  "compare_ts a b = jsub (time_num (s_timestamp a)) (time_num (s_timestamp b))"

text \<open>
  \<open>Array.prototype.sort\<close> with a comparator, as a stable insertion sort: \<open>x\<close> moves
  behind \<open>y\<close> only when the comparator is positive (\<open>NaN\<close> counts as 0). The language
  fixes the result when the comparator is consistent, which it is when every timestamp
  is valid; the order of a series holding invalid dates is implementation-defined and
  this is one admissible outcome.
\<close>

fun insert_by :: "('a \<Rightarrow> 'a \<Rightarrow> jsnum) \<Rightarrow> 'a \<Rightarrow> 'a list \<Rightarrow> 'a list" where
  "insert_by cmp x [] = [x]"
| "insert_by cmp x (y # ys) =
     (if jgt (cmp x y) (Fin 0) then y # insert_by cmp x ys else x # y # ys)"

definition sort_by :: "('a \<Rightarrow> 'a \<Rightarrow> jsnum) \<Rightarrow> 'a list \<Rightarrow> 'a list" where
  "sort_by cmp xs = foldr (insert_by cmp) xs []"

text \<open>\<open>xs.slice(-n)\<close>: the last \<open>n\<close> elements, all of them when there are fewer.\<close>

definition slice_last :: "nat \<Rightarrow> 'a list \<Rightarrow> 'a list" where
  "slice_last n xs = drop (length xs - n) xs"

text \<open>
  The normaliser inside \<open>fetchLiveData\<close>: map, sort by timestamp, keep the last 96.
\<close>

definition normalize :: "platform \<Rightarrow> string \<Rightarrow> jsval list \<Rightarrow> error + sample list" where
  "normalize pf paramKey raw =
     (case map_items (process_item pf paramKey) raw of
        Inl e \<Rightarrow> Inl e
      | Inr processedData \<Rightarrow> Inr (slice_last 96 (sort_by compare_ts processedData)))"

text \<open>A processed sample as the JavaScript object it is.\<close>

definition sample_obj :: "sample \<Rightarrow> jsval" where
  "sample_obj s =
     JObj [(''time'', JStr (s_time s)), (''value'', JNum (s_value s)),
           (''timestamp'', JDate (s_timestamp s))]"

definition paramKey_of :: "string \<Rightarrow> string" where
  "paramKey_of pollutant = (if pollutant = ''PM2.5'' then ''pm2.5cnc'' else ''pm10cnc'')"

section \<open>The fallback generator\<close>

text \<open>\<open>timestamp.getHours()\<close>: \<open>NaN\<close> on an invalid date.\<close>

definition hours_of :: "platform \<Rightarrow> timeval \<Rightarrow> jsnum" where
  "hours_of pf t = (case t of None \<Rightarrow> NaN | Some ms \<Rightarrow> Fin (of_int (getHours pf ms)))"

text \<open>\<open>siteId.replace(/\D/g, '')\<close>: the decimal digits of the identifier.\<close>

definition digits_of :: "string \<Rightarrow> string" where
  "digits_of sid = filter is_digit sid"

text \<open>
  \<open>parseInt\<close> on a string of decimal digits: \<open>NaN\<close> on the empty string, else
  the double nearest to the decimal value, \<open>Infinity\<close> from 309 digits on.
\<close>

definition parseInt_digits :: "string \<Rightarrow> jsnum" where
  "parseInt_digits ds = (if ds = [] then NaN else round64 (real (dec_val ds)))"

text \<open>
  The operator \<open>%\<close>: the remainder of the division truncated towards zero. The
  remainder of two doubles is a double, so nothing is rounded.
\<close>

fun jrem :: "jsnum \<Rightarrow> jsnum \<Rightarrow> jsnum" where
  "jrem (Fin a) (Fin b) = (if b = 0 then NaN else Fin (a - b * of_int (trunc (a / b))))"
| "jrem (Fin a) PInf = Fin a"
| "jrem (Fin a) NInf = Fin a"
| "jrem a b = NaN"

definition fallback_timestamp :: "int \<Rightarrow> nat \<Rightarrow> timeval" where
  "fallback_timestamp now i = time_clip (now - (23 - int i) * 60 * 60 * 1000)"

definition siteIndex :: "string \<Rightarrow> jsnum" where
  "siteIndex sid = jrem (parseInt_digits (digits_of sid)) (Fin 10)"

text \<open>\<open>baseValue\<close> after the two peak branches, before the noise is added.\<close>

definition baseValue :: "platform \<Rightarrow> string \<Rightarrow> int \<Rightarrow> nat \<Rightarrow> jsnum" where
  "baseValue pf sid now i =
     (let timeOfDay = hours_of pf (fallback_timestamp now i);
          base = jadd (Fin 30) (jmul (siteIndex sid) (Fin 5))
      in if jge timeOfDay (Fin 7) \<and> jle timeOfDay (Fin 10) then
           jadd base (jadd (Fin 40) (jmul (jsub timeOfDay (Fin 7)) (Fin 20)))
         else if jge timeOfDay (Fin 17) \<and> jle timeOfDay (Fin 20) then
           jadd base (jadd (Fin 50) (jmul (jsub timeOfDay (Fin 17)) (Fin 15)))
         else base)"

text \<open>
  One iteration of the loop. \<open>rnd i\<close> is what \<open>Math.random()\<close> returns in iteration
  \<open>i\<close> of this invocation.
\<close>

definition fallback_sample :: "platform \<Rightarrow> string \<Rightarrow> int \<Rightarrow> (nat \<Rightarrow> real) \<Rightarrow> nat \<Rightarrow> sample" where
  "fallback_sample pf sid now rnd i =
     \<lparr> s_time = localeTime pf (fallback_timestamp now i),
       s_value =
         jdiv (jround (jmul (jadd (baseValue pf sid now i)
                                  (jsub (jmul (Fin (rnd i)) (Fin 30)) (Fin 15)))
                            (Fin 100)))
              (Fin 100),
       s_timestamp = fallback_timestamp now i \<rparr>"

text \<open>The loop \<open>for (let i = 0; i < 24; i++) data.push(...)\<close>.\<close>

function fallback_loop ::
  "platform \<Rightarrow> string \<Rightarrow> int \<Rightarrow> (nat \<Rightarrow> real) \<Rightarrow> nat \<Rightarrow> sample list \<Rightarrow> sample list" where
  "fallback_loop pf sid now rnd i data =
     (if i < 24 then fallback_loop pf sid now rnd (i + 1) (data @ [fallback_sample pf sid now rnd i])
      else data)"
  by pat_completeness auto
termination
  by (relation "measure (\<lambda>(pf, sid, now, rnd, i, data). 24 - i)") auto

declare fallback_loop.simps [simp del]

definition fallback_data :: "platform \<Rightarrow> string \<Rightarrow> int \<Rightarrow> (nat \<Rightarrow> real) \<Rightarrow> sample list" where
  "fallback_data pf sid now rnd = fallback_loop pf sid now rnd 0 []"

text \<open>
  \<open>generateFallbackData\<close>. \<open>now\<close> is the clock it reads first, \<open>upd\<close> the clock read
  for \<open>setLastUpdated\<close>.
\<close>

definition generateFallbackData :: "platform \<Rightarrow> int \<Rightarrow> (nat \<Rightarrow> real) \<Rightarrow> int \<Rightarrow> state \<Rightarrow> state" where
  "generateFallbackData pf now rnd upd st =
     (let data = fallback_data pf (siteId st) now rnd
      in detectAnomalies data (st\<lparr>graphData := data, lastUpdated := Some upd\<rparr>))"

section \<open>The fetch cycle\<close>

text \<open>The outcome of \<open>await axios.get(apiUrl)\<close>: rejected, or resolved with \<open>response.data\<close>.\<close>

datatype response = Rejected | Resolved jsval

definition toast_no_data :: "string \<Rightarrow> toast" where
  "toast_no_data sid = ToastWarning (''No data available for '' @ sid)"

definition toast_failed :: toast where
  "toast_failed = ToastError ''Failed to fetch live air quality data''"

text \<open>The \<open>catch\<close> block.\<close>

definition catch_block :: "platform \<Rightarrow> int \<Rightarrow> (nat \<Rightarrow> real) \<Rightarrow> int \<Rightarrow> state \<Rightarrow> state" where
  "catch_block pf now rnd upd st =
     generateFallbackData pf now rnd upd
       (st\<lparr>toasts := toasts st @ [toast_failed], loading := False\<rparr>)"

text \<open>
  \<open>fetchLiveData\<close>, given the outcome of the request and the clock and random values
  the cycle may read. A throw inside the \<open>try\<close> block (a rejected request, a property
  read on a \<open>null\<close> item) runs the \<open>catch\<close> block.
\<close>

definition fetchLiveData ::
  "platform \<Rightarrow> response \<Rightarrow> int \<Rightarrow> (nat \<Rightarrow> real) \<Rightarrow> int \<Rightarrow> state \<Rightarrow> state" where
  "fetchLiveData pf resp now rnd upd st =
     (if siteId st = [] then st
      else
        let st1 = st\<lparr>loading := True\<rparr> in
        (case resp of
           Rejected \<Rightarrow> catch_block pf now rnd upd st1
         | Resolved d \<Rightarrow>
             (case d of
                JArr items \<Rightarrow>
                  (case normalize pf (paramKey_of (pollutantType st1)) items of
                     Inl e \<Rightarrow> catch_block pf now rnd upd st1
                   | Inr recentData \<Rightarrow>
                       (detectAnomalies recentData (st1\<lparr>graphData := recentData\<rparr>))
                         \<lparr>lastUpdated := Some upd, loading := False\<rparr>)
              | _ \<Rightarrow> st1\<lparr>toasts := toasts st1 @ [toast_no_data (siteId st1)],
                          loading := False\<rparr>)))"

section \<open>The refresh effects\<close>

text \<open>
  The timers and fetches the two refresh effects of the page cause. \<open>timers\<close> are the
  interval ids that are active, \<open>fetches\<close> counts the calls of \<open>fetchLiveData\<close>, and
  \<open>cleanupA\<close>, \<open>cleanupB\<close> hold the interval id each effect's cleanup closure captured.
\<close>

record sched =
  timers :: "nat list"
  nextId :: nat
  fetches :: nat
  cleanupA :: "nat option"
  cleanupB :: "nat option"

text \<open>\<open>setInterval\<close> and \<open>clearInterval\<close>.\<close>

definition setInterval :: "sched \<Rightarrow> nat \<times> sched" where
  "setInterval s = (nextId s, s\<lparr>timers := timers s @ [nextId s], nextId := nextId s + 1\<rparr>)"

definition clearInterval :: "nat option \<Rightarrow> sched \<Rightarrow> sched" where
  "clearInterval h s =
     (case h of None \<Rightarrow> s | Some i \<Rightarrow> s\<lparr>timers := removeAll i (timers s)\<rparr>)"

text \<open>
  The body both effects share word for word: call \<open>fetchLiveData\<close>, start the interval,
  return its id for the cleanup.
\<close>

definition refresh_body :: "sched \<Rightarrow> nat \<times> sched" where
  "refresh_body s = setInterval (s\<lparr>fetches := fetches s + 1\<rparr>)"

text \<open>The effect declared before \<open>resetFilters\<close> and the one declared after \<open>getSiteName\<close>.\<close>

definition effectA :: "sched \<Rightarrow> sched" where
  "effectA s = (let (i, s') = refresh_body s in s'\<lparr>cleanupA := Some i\<rparr>)"

definition effectB :: "sched \<Rightarrow> sched" where
  "effectB s = (let (i, s') = refresh_body s in s'\<lparr>cleanupB := Some i\<rparr>)"

definition run_cleanups :: "sched \<Rightarrow> sched" where
  "run_cleanups s =
     (clearInterval (cleanupB (clearInterval (cleanupA s) s)) (clearInterval (cleanupA s) s))
       \<lparr>cleanupA := None, cleanupB := None\<rparr>"

text \<open>
  The events of the view. Mounting runs the effects in declaration order; a change of
  \<open>siteId\<close>, \<open>pollutantType\<close>, \<open>startDate\<close> or \<open>endDate\<close> gives \<open>fetchLiveData\<close> a new
  identity, so both effects are cleaned up and run again; a tick of an active interval
  calls \<open>fetchLiveData\<close>; unmounting runs the cleanups.
\<close>

definition mount :: "sched \<Rightarrow> sched" where
  "mount s = effectB (effectA s)"

definition param_change :: "sched \<Rightarrow> sched" where
  "param_change s = effectB (effectA (run_cleanups s))"




definition sched0 :: sched where
  "sched0 = \<lparr> timers = [], nextId = 0, fetches = 0, cleanupA = None, cleanupB = None \<rparr>"

section \<open>Concrete inputs\<close>

text \<open>
  A platform on UTC whose time label is constant, the state the page starts in, and
  small series, used to run the definitions.
\<close>

definition utc_hours :: "int \<Rightarrow> int" where
  "utc_hours ms = (ms div 3600000) mod 24"

definition no_parse :: "jsval \<Rightarrow> timeval" where
  "no_parse v = None"

definition time_label :: "timeval \<Rightarrow> string" where
  "time_label t = (case t of None \<Rightarrow> ''Invalid Date'' | Some ms \<Rightarrow> ''00:00'')"

definition demo_pf :: platform where
  "demo_pf = \<lparr> dateParse = no_parse, localeTime = time_label, getHours = utc_hours \<rparr>"

definition st0 :: state where
  "st0 = \<lparr> siteId = ''site_104'', pollutantType = ''PM2.5'', startDate = ''2023-12-29'',
           endDate = ''2025-03-01'', graphData = [], loading = False, lastUpdated = None,
           anomalies = [], toasts = [] \<rparr>"

definition smp :: "real \<Rightarrow> int \<Rightarrow> sample" where
  "smp x t = \<lparr> s_time = ''00:00'', s_value = Fin x, s_timestamp = Some t \<rparr>"





text \<open>The letter x followed by 400 digits 9.\<close>

definition long_site :: string where
  "long_site = CHR ''x'' # replicate 400 (CHR ''9'')"

definition raw_item :: "int \<Rightarrow> jsval \<Rightarrow> jsval" where
  "raw_item t v = JObj [(''timestamp'', JNum (Fin (of_int t))), (''pm2.5cnc'', v)]"

definition rnd_low :: "nat \<Rightarrow> real" where
  "rnd_low i = 0"

definition rnd_mid :: "nat \<Rightarrow> real" where
  "rnd_mid i = 1 / 2"

section \<open>Predicates for stating properties\<close>

text \<open>An item whose properties can be read without a \<open>TypeError\<close>.\<close>

definition readable :: "jsval \<Rightarrow> bool" where
  "readable item = (item \<noteq> JUndefined \<and> item \<noteq> JNull)"

text \<open>\<open>Array.isArray\<close>.\<close>

fun is_array :: "jsval \<Rightarrow> bool" where
  "is_array (JArr xs) = True"
| "is_array v = False"

text \<open>An item that is readable and whose \<open>timestamp\<close> gives a valid date.\<close>

definition valid_item :: "platform \<Rightarrow> jsval \<Rightarrow> bool" where
  "valid_item pf item =
     (case get_prop item ''timestamp'' of
        Inl e \<Rightarrow> False
      | Inr ts \<Rightarrow> newDate pf ts \<noteq> None)"

definition valid_sample :: "sample \<Rightarrow> bool" where
  "valid_sample s = (s_timestamp s \<noteq> None)"

text \<open>The time value of a valid sample in milliseconds.\<close>

definition ts_ms :: "sample \<Rightarrow> int" where
  "ts_ms s = (case s_timestamp s of None \<Rightarrow> 0 | Some t \<Rightarrow> t)"

text \<open>The comparator does not ask for \<open>a\<close> to move behind \<open>b\<close>.\<close>

definition in_order :: "sample \<Rightarrow> sample \<Rightarrow> bool" where
  "in_order a b = (\<not> jgt (compare_ts a b) (Fin 0))"

text \<open>The value of a sample set to 0.\<close>

definition zero_value :: "sample \<Rightarrow> sample" where
  "zero_value s = s\<lparr>s_value := Fin 0\<rparr>"

text \<open>Raw items with the timestamps \<open>n, n - 1, ..., 1\<close> in this (descending) order.\<close>

definition raw_desc :: "nat \<Rightarrow> jsval list" where
  "raw_desc n = map (\<lambda>i. raw_item (int (n - i)) (JStr ''10'')) [0..<n]"

section \<open>Rounding to the nearest double\<close>

subsection \<open>White space\<close>

lemma skip_space_none: "space_prefix s = 0 \<Longrightarrow> skip_space s = s"
  by (subst skip_space.simps) simp

subsection \<open>rne\<close>

lemma rne_of_int [simp]: "rne (of_int k) = k"
  by (simp add: rne_def)

lemma rne_le: "y \<le> of_int k \<Longrightarrow> rne y \<le> k"
proof -
  assume a: "y \<le> of_int k"
  show ?thesis
  proof (cases "y = of_int k")
    case True
    then show ?thesis by simp
  next
    case False
    with a have "y < of_int k" by simp
    then have "\<lfloor>y\<rfloor> < k" by (simp add: floor_less_iff)
    then show ?thesis by (simp add: rne_def)
  qed
qed

lemma rne_ge: "of_int k \<le> y \<Longrightarrow> k \<le> rne y"
proof -
  assume "of_int k \<le> y"
  then have "k \<le> \<lfloor>y\<rfloor>" by (simp add: le_floor_iff)
  then show ?thesis by (simp add: rne_def)
qed


subsection \<open>bexp\<close>

lemma bexp_ge: "- 1022 \<le> bexp x"
  by (simp add: bexp_def)

lemma powi_powr: "(2::real) powi e = 2 powr (of_int e)"
  by (simp add: powr_real_of_int')


lemma bexp_subnormal:
  assumes "x \<noteq> 0" and "\<bar>x\<bar> < 2 powi (- 1022)"
  shows "bexp x = - 1022"
proof -
  from assms(1) have pos: "0 < \<bar>x\<bar>" by simp
  from assms(2) have "log 2 \<bar>x\<bar> < of_int (- 1022)"
    using log_less_iff [of 2 "\<bar>x\<bar>" "of_int (- 1022)"] pos by (simp only: powi_powr)
  then have "\<lfloor>log 2 \<bar>x\<bar>\<rfloor> < - 1022" by (simp only: floor_less_iff)
  then show ?thesis by (simp add: bexp_def)
qed

lemma bexp_normal:
  assumes "2 powi (- 1022) \<le> \<bar>x\<bar>"
  shows "2 powi (bexp x) \<le> \<bar>x\<bar>" and "\<bar>x\<bar> < 2 powi (bexp x + 1)"
proof -
  from assms have pos: "0 < \<bar>x\<bar>"
    by (meson less_le_trans zero_less_numeral zero_less_power_int)
  let ?f = "\<lfloor>log 2 \<bar>x\<bar>\<rfloor>"
  have c: "2 powr (of_int ?f) \<le> \<bar>x\<bar> \<and> \<bar>x\<bar> < 2 powr (of_int ?f + 1)"
    using floor_log_eq_powr_iff [OF pos, of 2 ?f] by simp
  from assms have "of_int (- 1022) \<le> log 2 \<bar>x\<bar>"
    using le_log_iff [of 2 "\<bar>x\<bar>" "of_int (- 1022)"] pos by (simp only: powi_powr)
  then have "- 1022 \<le> ?f" by (simp only: le_floor_iff)
  then have b: "bexp x = ?f" by (simp add: bexp_def)
  from c show "2 powi (bexp x) \<le> \<bar>x\<bar>" by (simp add: b powi_powr)
  from c show "\<bar>x\<bar> < 2 powi (bexp x + 1)" by (simp add: b powi_powr)
qed

lemma bexp_upper:
  assumes "x \<noteq> 0" and "\<bar>x\<bar> < 2 powi e" and "- 1022 \<le> e - 1"
  shows "bexp x \<le> e - 1"
proof (cases "2 powi (- 1022) \<le> \<bar>x\<bar>")
  case True
  from bexp_normal(1) [OF True] assms(2) have "(2::real) powi (bexp x) < 2 powi e" by simp
  then have "bexp x < e"
    by (smt (verit) power_int_increasing)
  then show ?thesis by simp
next
  case False
  with assms(1) have "bexp x = - 1022" by (intro bexp_subnormal) simp_all
  with assms(3) show ?thesis by simp
qed

lemma ulp_pos: "0 < ulp x"
  by (simp add: ulp_def)

subsection \<open>round64\<close>

lemma rne_0 [simp]: "rne 0 = 0"
  by (simp add: rne_def)

lemma round64_0 [simp]: "round64 0 = Fin 0"
  by (simp add: round64_def)

lemma ulp_small:
  assumes "x \<noteq> 0" and "\<bar>x\<bar> < 2 powi 53"
  shows "\<exists>j. ulp x = 1 / 2 ^ j"
proof -
  from bexp_upper [OF assms(1,2)] have "bexp x \<le> 52" by simp
  then have "bexp x - 52 = - int (nat (52 - bexp x))" by simp
  then have "ulp x = 2 powi (- int (nat (52 - bexp x)))" by (simp only: ulp_def)
  then have "ulp x = 1 / 2 ^ nat (52 - bexp x)"
    by (simp only: power_int_minus power_int_of_nat inverse_eq_divide)
  then show ?thesis ..
qed

lemma round64_between:
  assumes "of_int a \<le> x" and "x \<le> of_int b"
    and "\<bar>a\<bar> < 2 ^ 53" and "\<bar>b\<bar> < 2 ^ 53"
  shows "\<exists>r. round64 x = Fin r \<and> of_int a \<le> r \<and> r \<le> of_int b"
proof (cases "x = 0")
  case True
  with assms(1,2) show ?thesis by simp
next
  case False
  have ra: "\<bar>real_of_int a\<bar> < 2 ^ 53" and rb: "\<bar>real_of_int b\<bar> < 2 ^ 53"
    using assms(3,4) by (metis of_int_abs of_int_less_numeral_power_cancel_iff)+
  with assms(1,2) have "\<bar>x\<bar> < 2 ^ 53" by linarith
  then have "\<bar>x\<bar> < 2 powi 53" by simp
  from ulp_small [OF False this] obtain j where u: "ulp x = 1 / 2 ^ j" ..
  let ?m = "rne (x / ulp x)"
  have "x / ulp x \<le> of_int (b * 2 ^ j)" using assms(2) by (simp add: u)
  then have hi: "?m \<le> b * 2 ^ j" by (rule rne_le)
  have "of_int (a * 2 ^ j) \<le> x / ulp x" using assms(1) by (simp add: u)
  then have lo: "a * 2 ^ j \<le> ?m" by (rule rne_ge)
  from hi have "real_of_int ?m \<le> of_int (b * 2 ^ j)" by (simp only: of_int_le_iff)
  then have hi': "of_int ?m * ulp x \<le> of_int b" by (simp add: u field_simps)
  from lo have "real_of_int (a * 2 ^ j) \<le> of_int ?m" by (simp only: of_int_le_iff)
  then have lo': "of_int a \<le> of_int ?m * ulp x" by (simp add: u field_simps)
  from lo' hi' ra rb have "\<bar>of_int ?m * ulp x\<bar> < 2 ^ 53" by linarith
  also have "(2::real) ^ 53 < 2 powi 1024" by simp
  finally have "\<not> 2 powi 1024 \<le> \<bar>of_int ?m * ulp x\<bar>" by simp
  then have "round64 x = Fin (of_int ?m * ulp x)" by (simp add: round64_def)
  with lo' hi' show ?thesis by blast
qed

lemma round64_of_int:
  assumes "\<bar>k\<bar> < 2 ^ 53"
  shows "round64 (of_int k) = Fin (of_int k)"
  using round64_between [of k "of_int k" k, OF _ _ assms assms] by auto

lemma round64_pos:
  assumes "2 powi (- 1022) \<le> x"
  shows "round64 x = PInf \<or> (\<exists>r. round64 x = Fin r \<and> 0 < r)"
proof -
  from assms have pos: "0 < x"
    by (meson less_le_trans zero_less_numeral zero_less_power_int)
  then have ax: "\<bar>x\<bar> = x" by simp
  from assms have "2 powi (bexp x) \<le> x" using bexp_normal(1) [of x] by (simp add: ax)
  then have "2 powi (bexp x) / ulp x \<le> x / ulp x"
    by (intro divide_right_mono) (simp_all add: ulp_def)
  moreover have "(2::real) powi (bexp x) / ulp x = 2 powi 52"
    by (simp add: ulp_def power_int_diff)
  ultimately have "of_int (2 ^ 52) \<le> x / ulp x" by simp
  then have "2 ^ 52 \<le> rne (x / ulp x)" by (rule rne_ge)
  moreover have "(0::int) < 2 ^ 52" by simp
  ultimately have "0 < rne (x / ulp x)" by linarith
  then have "0 < of_int (rne (x / ulp x)) * ulp x" by (simp add: ulp_pos)
  with pos show ?thesis by (simp add: round64_def)
qed

lemma round64_neg:
  assumes "x \<le> - (2 powi (- 1022))"
  shows "round64 x = NInf \<or> (\<exists>r. round64 x = Fin r \<and> r < 0)"
proof -
  have "0 < (2::real) powi (- 1022)" by simp
  with assms have neg: "x < 0" by linarith
  then have ax: "\<bar>x\<bar> = - x" by simp
  from assms have "2 powi (- 1022) \<le> \<bar>x\<bar>" by (simp add: ax)
  then have "2 powi (bexp x) \<le> - x" using bexp_normal(1) [of x] by (simp add: ax)
  then have "2 powi (bexp x) / ulp x \<le> (- x) / ulp x"
    by (intro divide_right_mono) (simp_all add: ulp_def)
  moreover have "(2::real) powi (bexp x) / ulp x = 2 powi 52"
    by (simp add: ulp_def power_int_diff)
  ultimately have "x / ulp x \<le> of_int (- (2 ^ 52))" by simp
  then have "rne (x / ulp x) \<le> - (2 ^ 52)" by (rule rne_le)
  moreover have "(0::int) < 2 ^ 52" by simp
  ultimately have "rne (x / ulp x) < 0" by linarith
  then have "of_int (rne (x / ulp x)) * ulp x < 0"
    by (simp add: ulp_pos mult_neg_pos)
  with neg show ?thesis by (simp add: round64_def)
qed

lemma round64_of_nat_integer:
  assumes "round64 (of_nat n) = Fin r"
  shows "\<exists>z. r = of_int z \<and> 0 \<le> z"
proof (cases "n = 0")
  case True
  with assms show ?thesis by (intro exI [of _ 0]) simp
next
  case False
  let ?x = "real n"
  let ?m = "rne (?x / ulp ?x)"
  have "0 \<le> ?x / ulp ?x" by (simp add: ulp_pos less_imp_le)
  then have "of_int 0 \<le> ?x / ulp ?x" by simp
  then have m0: "0 \<le> ?m" by (rule rne_ge)
  from assms have r: "r = of_int ?m * ulp ?x"
    by (simp add: round64_def split: if_splits)
  show ?thesis
  proof (cases "bexp ?x \<le> 52")
    case True
    then have "bexp ?x - 52 = - int (nat (52 - bexp ?x))" by simp
    then have "ulp ?x = 2 powi (- int (nat (52 - bexp ?x)))" by (simp only: ulp_def)
    then have u: "ulp ?x = 1 / 2 ^ nat (52 - bexp ?x)"
      by (simp only: power_int_minus power_int_of_nat inverse_eq_divide)
    have "?x / ulp ?x = of_int (int n * 2 ^ nat (52 - bexp ?x))" by (simp add: u)
    then have "?m = int n * 2 ^ nat (52 - bexp ?x)" by (simp only: rne_of_int)
    then have "r = of_int (int n)" by (simp add: r u)
    then show ?thesis by (intro exI [of _ "int n"]) simp
  next
    case False
    then have "bexp ?x - 52 = int (nat (bexp ?x - 52))" by simp
    then have "ulp ?x = 2 powi (int (nat (bexp ?x - 52)))" by (simp only: ulp_def)
    then have u: "ulp ?x = 2 ^ nat (bexp ?x - 52)" by (simp only: power_int_of_nat)
    have "r = of_int (?m * 2 ^ nat (bexp ?x - 52))" by (simp add: r u)
    moreover from m0 have "0 \<le> ?m * 2 ^ nat (bexp ?x - 52)" by simp
    ultimately show ?thesis by blast
  qed
qed

lemma round64_overflow:
  assumes "2 powi 1024 \<le> x"
  shows "round64 x = PInf"
proof -
  have "(2::real) powi (- 1022) \<le> 2 powi 1024" by (intro power_int_increasing) simp_all
  with assms have n: "2 powi (- 1022) \<le> \<bar>x\<bar>" by linarith
  have pos: "0 < x"
    using assms by (meson less_le_trans zero_less_numeral zero_less_power_int)
  then have ax: "\<bar>x\<bar> = x" by simp
  from bexp_normal [OF n] have lo: "2 powi (bexp x) \<le> x" and hi: "x < 2 powi (bexp x + 1)"
    by (simp_all add: ax)
  from assms hi have "(2::real) powi 1024 < 2 powi (bexp x + 1)" by linarith
  then have "1024 < bexp x + 1"
    by (smt (verit) power_int_increasing)
  then have e: "1024 \<le> bexp x" by simp
  from lo have "2 powi (bexp x) / ulp x \<le> x / ulp x"
    by (intro divide_right_mono) (simp_all add: ulp_def)
  moreover have "(2::real) powi (bexp x) / ulp x = 2 powi 52"
    by (simp add: ulp_def power_int_diff)
  ultimately have "of_int (2 ^ 52) \<le> x / ulp x" by simp
  then have "2 ^ 52 \<le> rne (x / ulp x)" by (rule rne_ge)
  then have "real_of_int (2 ^ 52) \<le> of_int (rne (x / ulp x))" by (simp only: of_int_le_iff)
  then have "2 powi 52 * ulp x \<le> of_int (rne (x / ulp x)) * ulp x"
    by (intro mult_right_mono) (simp_all add: ulp_pos less_imp_le)
  moreover have "(2::real) powi 52 * ulp x = 2 powi (bexp x)"
  proof -
    have "(2::real) powi (52 + (bexp x - 52)) = 2 powi 52 * 2 powi (bexp x - 52)"
      by (rule power_int_add) simp
    then show ?thesis by (simp only: ulp_def) simp
  qed
  moreover from e have "(2::real) powi 1024 \<le> 2 powi (bexp x)"
    by (intro power_int_increasing) simp_all
  ultimately have "2 powi 1024 \<le> of_int (rne (x / ulp x)) * ulp x" by linarith
  then have "2 powi 1024 \<le> \<bar>of_int (rne (x / ulp x)) * ulp x\<bar>" by linarith
  with pos show ?thesis by (simp add: round64_def)
qed


lemma round64_numeral [simp]:
  "(numeral w :: real) < 9007199254740992 \<Longrightarrow> round64 (numeral w) = Fin (numeral w)"
  using round64_of_int [of "numeral w"] by simp

lemma round64_neg_numeral [simp]:
  "(numeral w :: real) < 9007199254740992 \<Longrightarrow> round64 (- numeral w) = Fin (- numeral w)"
  using round64_of_int [of "- numeral w"] by simp

lemma round64_1 [simp]: "round64 1 = Fin 1"
  using round64_of_int [of 1] by simp

lemma round64_neg_1 [simp]: "round64 (- 1) = Fin (- 1)"
  using round64_of_int [of "- 1"] by simp


lemma round64_int_positive:
  "jgt (round64 (of_int d)) (Fin 0) = (0 < d)"
proof -
  have small: "(2::real) powi (- 1022) \<le> 1"
    using power_int_increasing [of "- 1022" 0 "2::real"] by simp
  consider (pos) "0 < d" | (zero) "d = 0" | (neg) "d < 0" by linarith
  then show ?thesis
  proof cases
    case pos
    then have "1 \<le> real_of_int d" by simp
    with small have "2 powi (- 1022) \<le> real_of_int d" by linarith
    from round64_pos [OF this] pos show ?thesis by auto
  next
    case zero
    then show ?thesis by simp
  next
    case neg
    then have "real_of_int d \<le> - 1" by simp
    with small have "real_of_int d \<le> - (2 powi (- 1022))" by linarith
    from round64_neg [OF this] neg show ?thesis by auto
  qed
qed

lemma bexp_less:
  assumes "x \<noteq> 0"
  shows "\<bar>x\<bar> < 2 powi (bexp x + 1)"
proof (cases "2 powi (- 1022) \<le> \<bar>x\<bar>")
  case True
  then show ?thesis by (rule bexp_normal(2))
next
  case False
  with assms have "bexp x = - 1022" by (intro bexp_subnormal) simp_all
  moreover have "(2::real) powi (- 1022) \<le> 2 powi (- 1022 + 1)"
    by (intro power_int_increasing) simp_all
  ultimately show ?thesis using False by simp
qed

lemma round64_finite:
  assumes "\<bar>x\<bar> < 2 powi 1023"
  shows "is_fin (round64 x)"
proof (cases "x = 0")
  case True
  then show ?thesis by simp
next
  case False
  let ?m = "rne (x / ulp x)"
  from bexp_upper [OF False assms] have e: "bexp x \<le> 1022" by simp
  have u: "ulp x = 2 powi (bexp x - 52)" by (simp only: ulp_def)
  have split: "(2::real) powi (bexp x + 1) = 2 powi 53 * ulp x"
  proof -
    have "(2::real) powi (53 + (bexp x - 52)) = 2 powi 53 * 2 powi (bexp x - 52)"
      by (rule power_int_add) simp
    then show ?thesis by (simp only: u) (simp add: algebra_simps)
  qed
  from bexp_less [OF False] have "\<bar>x\<bar> < 2 powi 53 * ulp x" by (simp only: split)
  then have "\<bar>x\<bar> / ulp x < 2 powi 53" by (simp add: pos_divide_less_eq ulp_pos)
  then have "\<bar>x / ulp x\<bar> < 2 powi 53" using ulp_pos [of x] by simp
  then have "\<bar>x / ulp x\<bar> < 9007199254740992" by simp
  then have "x / ulp x \<le> 9007199254740992" and "- 9007199254740992 \<le> x / ulp x"
    by linarith+
  then have hi: "x / ulp x \<le> of_int (2 ^ 53)" and lo: "of_int (- (2 ^ 53)) \<le> x / ulp x"
    by simp_all
  from hi have "?m \<le> 2 ^ 53" by (rule rne_le)
  moreover from lo have "- (2 ^ 53) \<le> ?m" by (rule rne_ge)
  ultimately have "?m \<le> 2 ^ 53" and "- (2 ^ 53) \<le> ?m" by simp_all
  then have "\<bar>?m\<bar> \<le> 2 ^ 53" by linarith
  then have "\<bar>real_of_int ?m\<bar> \<le> 2 powi 53"
    by (metis of_int_abs of_int_le_iff of_int_numeral of_int_power power_int_numeral)
  then have "\<bar>real_of_int ?m\<bar> * ulp x \<le> 2 powi 53 * ulp x"
    by (intro mult_right_mono) (simp_all add: ulp_pos less_imp_le)
  then have "\<bar>real_of_int ?m * ulp x\<bar> \<le> 2 powi (bexp x + 1)"
    using ulp_pos [of x] by (simp add: abs_mult split)
  moreover from e have "(2::real) powi (bexp x + 1) \<le> 2 powi 1023"
    by (intro power_int_increasing) simp_all
  moreover have "(2::real) powi 1023 < 2 powi 1024"
    by (intro power_int_strict_increasing) simp_all
  ultimately have "\<not> 2 powi 1024 \<le> \<bar>real_of_int ?m * ulp x\<bar>" by linarith
  then show ?thesis by (simp add: round64_def)
qed

section \<open>The detector in double arithmetic\<close>


subsection \<open>The tie series, step by step\<close>






















subsection \<open>The tiny series, step by step\<close>














subsection \<open>The two series through the detector\<close>














subsection \<open>Series holding a value that is not finite\<close>















subsection \<open>Series of one repeated integer\<close>








text \<open>
  Claim C6 reads the guard as giving an empty anomaly list. The guard returns before
  \<open>setAnomalies\<close>, so a list stored by an earlier cycle stays as it is.
\<close>

theorem C6_counterexample:
  "anomalies (detectAnomalies [] (st0\<lparr>anomalies := [smp 17 16]\<rparr>)) = [smp 17 16]
   \<and> [smp 17 16] \<noteq> []"
  by (simp add: detectAnomalies_def)

text \<open>
  Claim C6, amended. On an empty series the detector leaves the state, and with it the
  anomaly list, unchanged; the list is empty afterwards exactly when it was before.
\<close>

theorem C6_empty_series_leaves_state:
  "detectAnomalies [] st = st"
  by (simp add: detectAnomalies_def)

section \<open>The normaliser\<close>

subsection \<open>The map step\<close>

lemma process_item_readable:
  "readable item \<Longrightarrow> \<exists>s. process_item pf k item = Inr s"
  by (cases item) (simp_all add: readable_def process_item_def)

lemma process_item_Inr_readable:
  "process_item pf k item = Inr s \<Longrightarrow> readable item"
  by (cases item) (simp_all add: readable_def process_item_def)

lemma map_items_readable:
  "list_all readable raw \<Longrightarrow>
     \<exists>ps. map_items (process_item pf k) raw = Inr ps"
proof (induction raw)
  case Nil
  then show ?case by simp
next
  case (Cons item raw)
  then obtain ps where "map_items (process_item pf k) raw = Inr ps" by auto
  moreover from Cons.prems obtain s where "process_item pf k item = Inr s"
    using process_item_readable [of item pf k] by auto
  ultimately show ?case by simp
qed

lemma map_items_all2:
  "map_items f xs = Inr ys \<Longrightarrow> list_all2 (\<lambda>x y. f x = Inr y) xs ys"
proof (induction xs arbitrary: ys)
  case Nil
  then show ?case by simp
next
  case (Cons x xs)
  then show ?case by (auto split: sum.splits)
qed

lemma all2_map_items:
  "list_all2 (\<lambda>x y. f x = Inr y) xs ys \<Longrightarrow> map_items f xs = Inr ys"
  by (induction xs ys rule: list_all2_induct) simp_all

lemma map_items_length:
  "map_items f xs = Inr ys \<Longrightarrow> length ys = length xs"
  by (drule map_items_all2) (simp add: list_all2_lengthD)

lemma map_items_member:
  assumes "map_items f xs = Inr ys" and "x \<in> set xs"
  shows "\<exists>y\<in>set ys. f x = Inr y"
proof -
  from assms(1) have a: "list_all2 (\<lambda>x y. f x = Inr y) xs ys" by (rule map_items_all2)
  from assms(2) obtain i where i: "i < length xs" "xs ! i = x" by (auto simp: in_set_conv_nth)
  with a have "f x = Inr (ys ! i)" and "i < length ys"
    by (auto simp: list_all2_conv_all_nth)
  then show ?thesis by auto
qed

subsection \<open>Sorting and slicing\<close>

lemma mset_insert_by: "mset (insert_by cmp x ys) = add_mset x (mset ys)"
  by (induction ys) simp_all

lemma mset_sort_by: "mset (sort_by cmp xs) = mset xs"
  by (induction xs) (simp_all add: sort_by_def mset_insert_by)

lemma length_sort_by: "length (sort_by cmp xs) = length xs"
  using mset_sort_by [of cmp xs] by (metis size_mset)

lemma set_sort_by: "set (sort_by cmp xs) = set xs"
  using mset_sort_by [of cmp xs] by (metis set_mset_mset)

lemma length_slice_last: "length (slice_last n xs) = min n (length xs)"
  by (simp add: slice_last_def)

lemma slice_last_all: "length xs \<le> n \<Longrightarrow> slice_last n xs = xs"
  by (simp add: slice_last_def)

lemma sort_by_in_order:
  "sorted_wrt in_order xs \<Longrightarrow> sort_by compare_ts xs = xs"
proof (induction xs)
  case Nil
  then show ?case by (simp add: sort_by_def)
next
  case (Cons x xs)
  then have ih: "sort_by compare_ts xs = xs" by simp
  have "sort_by compare_ts (x # xs) = insert_by compare_ts x (sort_by compare_ts xs)"
    by (simp add: sort_by_def)
  also have "\<dots> = insert_by compare_ts x xs" by (simp add: ih)
  also from Cons.prems have "\<dots> = x # xs"
    by (cases xs) (simp_all add: in_order_def)
  finally show ?case .
qed

lemma compare_valid:
  "valid_sample a \<Longrightarrow> valid_sample b \<Longrightarrow>
     jgt (compare_ts a b) (Fin 0) = (\<not> ts_ms a \<le> ts_ms b)"
proof -
  assume "valid_sample a" and "valid_sample b"
  then obtain x y where a: "s_timestamp a = Some x" and b: "s_timestamp b = Some y"
    by (auto simp: valid_sample_def)
  have "compare_ts a b = round64 (of_int (x - y))"
    by (simp add: compare_ts_def a b jsub_def)
  then have "jgt (compare_ts a b) (Fin 0) = (0 < x - y)"
    by (simp only: round64_int_positive)
  then show ?thesis by (simp add: ts_ms_def a b not_le)
qed

lemma insert_by_valid:
  "valid_sample x \<Longrightarrow> list_all valid_sample ys \<Longrightarrow>
     insert_by compare_ts x ys = insort_key ts_ms x ys"
  by (induction ys) (simp_all add: compare_valid)

lemma sort_by_valid:
  "list_all valid_sample xs \<Longrightarrow> sort_by compare_ts xs = sort_key ts_ms xs"
proof (induction xs)
  case Nil
  then show ?case by (simp add: sort_by_def)
next
  case (Cons x xs)
  then have ih: "sort_by compare_ts xs = sort_key ts_ms xs" by simp
  from Cons.prems have "list_all valid_sample (sort_key ts_ms xs)"
    by (simp add: list_all_iff)
  with Cons.prems have "insert_by compare_ts x (sort_key ts_ms xs)
      = insort_key ts_ms x (sort_key ts_ms xs)"
    by (intro insert_by_valid) simp_all
  with ih show ?case by (simp add: sort_by_def sort_key_def)
qed

subsection \<open>Claim C2\<close>

lemma process_item_falsy:
  assumes "get_prop item k = Inr v" and "\<not> truthy v"
  shows "\<exists>s. process_item pf k item = Inr s \<and> s_value s = Fin 0"
proof -
  from assms(1) have "readable item" by (cases item) (simp_all add: readable_def)
  then obtain ts where "get_prop item ''timestamp'' = Inr ts"
    by (cases item) (simp_all add: readable_def)
  with assms show ?thesis by (simp add: process_item_def js_or_def)
qed

lemma normalize_readable:
  assumes "list_all readable raw"
  shows "\<exists>ps. map_items (process_item pf k) raw = Inr ps
           \<and> normalize pf k raw = Inr (slice_last 96 (sort_by compare_ts ps))
           \<and> length ps = length raw"
proof -
  from map_items_readable [OF assms] obtain ps
    where ps: "map_items (process_item pf k) raw = Inr ps" by blast
  then show ?thesis by (simp add: normalize_def map_items_length)
qed

text \<open>
  Claim C2 says a non-numeric pollutant field gives the value 0. The default \<open>|| 0\<close>
  sits inside \<open>parseFloat\<close> and replaces falsy fields only: the text \<open>abc\<close> is
  truthy, reaches \<open>parseFloat\<close> and gives \<open>NaN\<close>.
\<close>

theorem C2_counterexample:
  "normalize demo_pf ''pm2.5cnc'' [raw_item 0 (JStr ''abc'')]
     = Inr [\<lparr> s_time = ''00:00'', s_value = NaN, s_timestamp = Some 0 \<rparr>]
   \<and> NaN \<noteq> Fin 0"
  by (simp add: normalize_def process_item_def raw_item_def js_or_def newDate_def
      time_clip_def trunc_def demo_pf_def time_label_def parse_float_str_def str_decimal_def
      skip_space_none space_prefix_def wide_spaces_def is_space_def is_digit_def sort_by_def slice_last_def)

text \<open>
  Claim C2, amended. For a raw item whose pollutant field is missing or holds a falsy
  value (\<open>null\<close>, \<open>false\<close>, 0, \<open>NaN\<close>, the empty string), the processed sample
  has the value 0. When no item of the input is \<open>null\<close> or \<open>undefined\<close> the
  normaliser raises nothing and returns min(96, n) entries; with at most 96 inputs the
  sample is among them.
\<close>

theorem C2_falsy_field_gives_zero:
  assumes "item \<in> set raw" and "list_all readable raw"
    and "get_prop item paramKey = Inr v" and "\<not> truthy v"
  shows "\<exists>s out. process_item pf paramKey item = Inr s \<and> s_value s = Fin 0
           \<and> normalize pf paramKey raw = Inr out
           \<and> length out = min 96 (length raw)
           \<and> (length raw \<le> 96 \<longrightarrow> s \<in> set out)"
proof -
  from process_item_falsy [OF assms(3,4)] obtain s
    where s: "process_item pf paramKey item = Inr s" "s_value s = Fin 0" by blast
  from normalize_readable [OF assms(2)] obtain ps
    where ps: "map_items (process_item pf paramKey) raw = Inr ps"
      "normalize pf paramKey raw = Inr (slice_last 96 (sort_by compare_ts ps))"
      "length ps = length raw" by blast
  let ?out = "slice_last 96 (sort_by compare_ts ps)"
  from ps(3) have len: "length ?out = min 96 (length raw)"
    by (simp add: length_slice_last length_sort_by)
  from map_items_member [OF ps(1) assms(1)] s(1) have mem: "s \<in> set ps" by auto
  have "s \<in> set ?out" if "length raw \<le> 96"
  proof -
    from that ps(3) have "?out = sort_by compare_ts ps"
      by (simp add: slice_last_all length_sort_by)
    with mem show ?thesis by (simp add: set_sort_by)
  qed
  with s ps(2) len show ?thesis by blast
qed

text \<open>
  Claim C2, amended, on three items: a numeric text, an item without the field, a
  \<open>null\<close> field.
\<close>

theorem C2_witness:
  "normalize demo_pf ''pm2.5cnc''
      [raw_item 1 (JStr ''10''), JObj [(''timestamp'', JNum (Fin 0))], raw_item 2 JNull]
     = Inr [\<lparr> s_time = ''00:00'', s_value = Fin 0, s_timestamp = Some 0 \<rparr>,
            \<lparr> s_time = ''00:00'', s_value = Fin 10, s_timestamp = Some 1 \<rparr>,
            \<lparr> s_time = ''00:00'', s_value = Fin 0, s_timestamp = Some 2 \<rparr>]
   \<and> (\<exists>s out. process_item demo_pf ''pm2.5cnc'' (JObj [(''timestamp'', JNum (Fin 0))]) = Inr s
          \<and> s_value s = Fin 0
          \<and> normalize demo_pf ''pm2.5cnc''
               [raw_item 1 (JStr ''10''), JObj [(''timestamp'', JNum (Fin 0))], raw_item 2 JNull]
             = Inr out
          \<and> length out = 3 \<and> s \<in> set out)"
proof -
  let ?item = "JObj [(''timestamp'', JNum (Fin 0))]"
  let ?raw = "[raw_item 1 (JStr ''10''), ?item, raw_item 2 JNull]"
  have a: "?item \<in> set ?raw" by simp
  have b: "list_all readable ?raw" by (simp add: readable_def raw_item_def)
  have c: "get_prop ?item ''pm2.5cnc'' = Inr JUndefined" by simp
  have d: "\<not> truthy JUndefined" by simp
  from C2_falsy_field_gives_zero [OF a b c d, of demo_pf] obtain s out
    where so: "process_item demo_pf ''pm2.5cnc'' ?item = Inr s" "s_value s = Fin 0"
      "normalize demo_pf ''pm2.5cnc'' ?raw = Inr out"
      "length out = min 96 (length ?raw)" "length ?raw \<le> 96 \<longrightarrow> s \<in> set out"
    by blast
  from so(4,5) have "length out = 3" and "s \<in> set out" by simp_all
  with so(1-3)
  have "\<exists>s out. process_item demo_pf ''pm2.5cnc'' ?item = Inr s \<and> s_value s = Fin 0
          \<and> normalize demo_pf ''pm2.5cnc'' ?raw = Inr out
          \<and> length out = 3 \<and> s \<in> set out"
    by blast
  moreover have "normalize demo_pf ''pm2.5cnc'' ?raw
     = Inr [\<lparr> s_time = ''00:00'', s_value = Fin 0, s_timestamp = Some 0 \<rparr>,
            \<lparr> s_time = ''00:00'', s_value = Fin 10, s_timestamp = Some 1 \<rparr>,
            \<lparr> s_time = ''00:00'', s_value = Fin 0, s_timestamp = Some 2 \<rparr>]"
    by (simp add: normalize_def process_item_def raw_item_def js_or_def newDate_def
      time_clip_def trunc_def demo_pf_def time_label_def parse_float_str_def str_decimal_def
      skip_space_none space_prefix_def wide_spaces_def is_space_def is_digit_def sort_by_def slice_last_def dec_val_def digit_val_def
      scale10_def exponent_part_def compare_ts_def jsub_def)
  ultimately show ?thesis by blast
qed

subsection \<open>Claim C3\<close>

lemma valid_item_readable: "valid_item pf item \<Longrightarrow> readable item"
  by (cases item) (simp_all add: valid_item_def readable_def)

lemma valid_item_sample:
  "valid_item pf item \<Longrightarrow> process_item pf k item = Inr s \<Longrightarrow> valid_sample s"
  by (auto simp: valid_item_def process_item_def valid_sample_def split: sum.splits)

lemma map_items_valid:
  assumes "map_items (process_item pf k) raw = Inr ps" and "list_all (valid_item pf) raw"
  shows "list_all valid_sample ps"
proof -
  from assms(1) have "list_all2 (\<lambda>x y. process_item pf k x = Inr y) raw ps"
    by (rule map_items_all2)
  then show ?thesis using assms(2)
    by (induction raw ps rule: list_all2_induct) (auto intro: valid_item_sample)
qed

lemma sorted_take_drop:
  assumes "sorted (map f xs)"
  shows "sorted (map f (drop n xs))"
    and "\<forall>d\<in>set (take n xs). \<forall>k\<in>set (drop n xs). f d \<le> f k"
proof -
  from assms have "sorted (map f (take n xs) @ map f (drop n xs))"
    by (simp flip: map_append)
  then show "sorted (map f (drop n xs))"
    and "\<forall>d\<in>set (take n xs). \<forall>k\<in>set (drop n xs). f d \<le> f k"
    by (auto simp: sorted_append)
qed

lemma mset_take_drop: "mset (take n xs) + mset (drop n xs) = mset xs"
  by (simp flip: mset_append)

text \<open>
  Claim C3. For more than 96 raw items, each readable with a valid timestamp, the
  normaliser returns exactly 96 samples in ascending timestamp order; together with the
  samples it drops they are the processed input, and no dropped sample is later than a
  kept one. The result is the tail of the stable sort of the processed input.
\<close>

theorem C3_keeps_last_96:
  assumes "96 < length raw" and "list_all (valid_item pf) raw"
  shows "\<exists>ps out dropped.
           map_items (process_item pf paramKey) raw = Inr ps
         \<and> normalize pf paramKey raw = Inr out
         \<and> length out = 96
         \<and> list_all valid_sample out
         \<and> sorted (map ts_ms out)
         \<and> mset dropped + mset out = mset ps
         \<and> (\<forall>d\<in>set dropped. \<forall>k\<in>set out. ts_ms d \<le> ts_ms k)
         \<and> out = drop (length raw - 96) (sort_key ts_ms ps)"
proof -
  from assms(2) have "list_all readable raw"
    by (auto simp: list_all_iff intro: valid_item_readable)
  from normalize_readable [OF this] obtain ps
    where ps: "map_items (process_item pf paramKey) raw = Inr ps"
      "normalize pf paramKey raw = Inr (slice_last 96 (sort_by compare_ts ps))"
      "length ps = length raw" by blast
  have valid: "list_all valid_sample ps" by (rule map_items_valid [OF ps(1) assms(2)])
  let ?srt = "sort_key ts_ms ps"
  let ?n = "length raw - 96"
  let ?out = "drop ?n ?srt"
  let ?dropped = "take ?n ?srt"
  have out: "slice_last 96 (sort_by compare_ts ps) = ?out"
    by (simp add: sort_by_valid [OF valid] slice_last_def ps(3))
  have srt: "sorted (map ts_ms ?srt)" by (rule sorted_sort_key)
  from assms(1) ps(3) have len: "length ?out = 96" by simp
  from valid have "list_all valid_sample ?srt" by (simp add: list_all_iff)
  then have v: "list_all valid_sample ?out"
    by (auto simp: list_all_iff dest: in_set_dropD)
  have m: "mset ?dropped + mset ?out = mset ps"
    by (simp add: mset_take_drop)
  note s1 = sorted_take_drop(1) [OF srt, of ?n]
  note s2 = sorted_take_drop(2) [OF srt, of ?n]
  from ps(1) ps(2) out len v s1 m s2 show ?thesis by (intro exI [of _ ps] exI [of _ ?out] exI [of _ ?dropped]) simp
qed

lemma valid_raw_item:
  "\<bar>t\<bar> \<le> 8640000000000000 \<Longrightarrow> valid_item pf (raw_item t v)"
  by (auto simp: valid_item_def raw_item_def newDate_def time_clip_def trunc_def)

text \<open>
  Claim C3 on two hundred items delivered newest first.
\<close>

theorem C3_witness:
  "96 < length (raw_desc 200)
   \<and> list_all (valid_item demo_pf) (raw_desc 200)
   \<and> (\<exists>out. normalize demo_pf ''pm2.5cnc'' (raw_desc 200) = Inr out
         \<and> length out = 96 \<and> sorted (map ts_ms out))"
proof -
  have a: "96 < length (raw_desc 200)" by (simp add: raw_desc_def)
  have b: "list_all (valid_item demo_pf) (raw_desc 200)"
    by (auto simp: raw_desc_def list_all_iff intro!: valid_raw_item)
  from C3_keeps_last_96 [OF a b, of "''pm2.5cnc''"] a b show ?thesis by blast
qed

subsection \<open>Claim C7\<close>

lemma process_item_time:
  "process_item pf k item = Inr s \<Longrightarrow> s_time s = localeTime pf (s_timestamp s)"
  by (auto simp: process_item_def split: sum.splits)

lemma map_items_time:
  assumes "map_items (process_item pf k) x = Inr ps"
  shows "list_all (\<lambda>s. s_time s = localeTime pf (s_timestamp s)) ps"
proof -
  from assms have "list_all2 (\<lambda>i s. process_item pf k i = Inr s) x ps"
    by (rule map_items_all2)
  then show ?thesis
    by (induction x ps rule: list_all2_induct) (auto dest: process_item_time)
qed

lemma paramKey_cases: "paramKey_of p = ''pm2.5cnc'' \<or> paramKey_of p = ''pm10cnc''"
  by (simp add: paramKey_of_def)

lemma process_sample_obj:
  assumes "s_time s = localeTime pf (s_timestamp s)"
  shows "process_item pf (paramKey_of p) (sample_obj s) = Inr (zero_value s)"
  using paramKey_cases [of p] assms
  by (auto simp: process_item_def sample_obj_def newDate_def js_or_def zero_value_def)

lemma map_items_sample_obj:
  "list_all (\<lambda>s. s_time s = localeTime pf (s_timestamp s)) ps \<Longrightarrow>
     map_items (process_item pf (paramKey_of p)) (map sample_obj ps) = Inr (map zero_value ps)"
  by (induction ps) (simp_all add: process_sample_obj)

lemma in_order_zero_value: "in_order (zero_value a) (zero_value b) = in_order a b"
  by (simp add: in_order_def compare_ts_def zero_value_def)

lemma sorted_zero_value:
  "sorted_wrt in_order (map zero_value ps) = sorted_wrt in_order ps"
  by (simp add: sorted_wrt_map in_order_zero_value)

lemma normalize_sorted_bounded:
  assumes "map_items (process_item pf k) x = Inr ps"
    and "sorted_wrt in_order ps" and "length x \<le> 96"
  shows "normalize pf k x = Inr ps"
proof -
  from assms(1) have "length ps = length x" by (rule map_items_length)
  with assms show ?thesis
    by (simp add: normalize_def sort_by_in_order slice_last_all)
qed

text \<open>
  Claim C7 says normalising twice equals normalising once on sorted, bounded input. A
  processed sample stores its number under \<open>value\<close>, not under the parameter key, so a
  second pass finds the field missing and writes 0.
\<close>

theorem C7_counterexample:
  "normalize demo_pf ''pm2.5cnc'' [raw_item 0 (JStr ''10'')] = Inr [smp 10 0]
   \<and> normalize demo_pf ''pm2.5cnc'' (map sample_obj [smp 10 0]) = Inr [smp 0 0]
   \<and> smp 0 0 \<noteq> smp 10 0"
  by (simp add: normalize_def process_item_def raw_item_def js_or_def newDate_def
      time_clip_def trunc_def demo_pf_def time_label_def parse_float_str_def str_decimal_def
      skip_space_none space_prefix_def wide_spaces_def is_space_def is_digit_def sort_by_def slice_last_def dec_val_def digit_val_def
      scale10_def exponent_part_def smp_def sample_obj_def)

text \<open>
  Claim C7, amended. On input that is already in timestamp order and has at most 96
  readable items, sorting and truncation change nothing: the result is the item-wise
  map. Normalising the resulting objects again keeps length, order, time labels and
  timestamps and sets every value to 0; it equals the first result when all its values
  are 0 already.
\<close>

theorem C7_renormalising_zeroes_values:
  assumes "map_items (process_item pf (paramKey_of p)) x = Inr ps"
    and "sorted_wrt in_order ps" and "length x \<le> 96"
  shows "normalize pf (paramKey_of p) x = Inr ps
       \<and> normalize pf (paramKey_of p) (map sample_obj ps) = Inr (map zero_value ps)
       \<and> ((\<forall>s\<in>set ps. s_value s = Fin 0) \<longrightarrow>
             normalize pf (paramKey_of p) (map sample_obj ps) = normalize pf (paramKey_of p) x)"
proof -
  have first: "normalize pf (paramKey_of p) x = Inr ps"
    by (rule normalize_sorted_bounded [OF assms])
  have len: "length ps = length x" by (rule map_items_length [OF assms(1)])
  have "map_items (process_item pf (paramKey_of p)) (map sample_obj ps) = Inr (map zero_value ps)"
    by (rule map_items_sample_obj [OF map_items_time [OF assms(1)]])
  moreover from assms(2) have "sorted_wrt in_order (map zero_value ps)"
    by (simp only: sorted_zero_value)
  moreover from len assms(3) have "length (map sample_obj ps) \<le> 96" by simp
  ultimately have second:
    "normalize pf (paramKey_of p) (map sample_obj ps) = Inr (map zero_value ps)"
    by (rule normalize_sorted_bounded)
  have "map zero_value ps = ps" if "\<forall>s\<in>set ps. s_value s = Fin 0"
    using that by (induction ps) (simp_all add: zero_value_def)
  with first second show ?thesis by simp
qed

text \<open>
  Claim C7, amended, on two items in order, the second with a \<open>null\<close> field.
\<close>

theorem C7_witness:
  "normalize demo_pf (paramKey_of ''PM2.5'') [raw_item 0 (JStr ''10''), raw_item 1 JNull]
     = Inr [smp 10 0, smp 0 1]
   \<and> normalize demo_pf (paramKey_of ''PM2.5'') (map sample_obj [smp 10 0, smp 0 1])
     = Inr [smp 0 0, smp 0 1]"
proof -
  have a: "map_items (process_item demo_pf (paramKey_of ''PM2.5''))
             [raw_item 0 (JStr ''10''), raw_item 1 JNull] = Inr [smp 10 0, smp 0 1]"
    by (simp add: paramKey_of_def process_item_def raw_item_def js_or_def newDate_def
      time_clip_def trunc_def demo_pf_def time_label_def parse_float_str_def str_decimal_def
      skip_space_none space_prefix_def wide_spaces_def is_space_def is_digit_def dec_val_def digit_val_def scale10_def exponent_part_def smp_def)
  have b: "sorted_wrt in_order [smp 10 0, smp 0 1]"
    by (simp add: in_order_def compare_ts_def smp_def jsub_def)
  have c: "length [raw_item 0 (JStr ''10''), raw_item 1 JNull] \<le> 96" by simp
  from C7_renormalising_zeroes_values [OF a b c] show ?thesis
    by (simp add: zero_value_def smp_def)
qed

section \<open>The fallback generator: properties\<close>

subsection \<open>The loop\<close>

lemma fallback_loop_map:
  "fallback_loop pf sid now rnd i data
     = data @ map (fallback_sample pf sid now rnd) [i..<24]"
proof (induction pf sid now rnd i data rule: fallback_loop.induct)
  case (1 pf sid now rnd i data)
  show ?case
  proof (cases "i < 24")
    case True
    then have "[i..<24] = i # [i + 1..<24]" by (simp add: upt_conv_Cons)
    with True "1.IH" show ?thesis by (subst fallback_loop.simps) simp
  next
    case False
    then show ?thesis by (subst fallback_loop.simps) simp
  qed
qed

lemma fallback_data_map:
  "fallback_data pf sid now rnd = map (fallback_sample pf sid now rnd) [0..<24]"
  by (simp only: fallback_data_def fallback_loop_map append_Nil)

lemma length_fallback_data: "length (fallback_data pf sid now rnd) = 24"
  by (simp add: fallback_data_map)

lemma nth_fallback_data:
  "i < 24 \<Longrightarrow> fallback_data pf sid now rnd ! i = fallback_sample pf sid now rnd i"
  by (simp add: fallback_data_map del: upt.simps)

subsection \<open>The baseline\<close>

lemma jadd_ints:
  "\<bar>a + b\<bar> < 2 ^ 53 \<Longrightarrow> jadd (Fin (of_int a)) (Fin (of_int b)) = Fin (of_int (a + b))"
  using round64_of_int [of "a + b"] by simp

lemma jmul_ints:
  "\<bar>a * b\<bar> < 2 ^ 53 \<Longrightarrow> jmul (Fin (of_int a)) (Fin (of_int b)) = Fin (of_int (a * b))"
  using round64_of_int [of "a * b"] by simp

lemma jsub_ints:
  "\<bar>a - b\<bar> < 2 ^ 53 \<Longrightarrow> jsub (Fin (of_int a)) (Fin (of_int b)) = Fin (of_int (a - b))"
  using round64_of_int [of "a - b"] by (simp add: jsub_def)

lemma parseInt_small:
  assumes "ds \<noteq> []" and "dec_val ds < 2 ^ 53"
  shows "parseInt_digits ds = Fin (real (dec_val ds))"
proof -
  from assms(2) have "int (dec_val ds) < int (2 ^ 53)" by (simp only: of_nat_less_iff)
  then have "\<bar>int (dec_val ds)\<bar> < 2 ^ 53" by simp
  from round64_of_int [OF this] assms(1) show ?thesis by (simp add: parseInt_digits_def)
qed

lemma digit_val_le: "is_digit c \<Longrightarrow> digit_val c \<le> 9"
  by (auto simp: is_digit_def digit_val_def)

lemma dec_val_bound:
  "list_all is_digit ds \<Longrightarrow>
     foldl (\<lambda>n c. 10 * n + digit_val c) a ds < (a + 1) * 10 ^ length ds"
proof (induction ds arbitrary: a)
  case Nil
  then show ?case by simp
next
  case (Cons c ds)
  then have d: "digit_val c \<le> 9" and rest: "list_all is_digit ds"
    by (simp_all add: digit_val_le)
  from Cons.IH [OF rest]
  have "foldl (\<lambda>n c. 10 * n + digit_val c) (10 * a + digit_val c) ds
          < (10 * a + digit_val c + 1) * 10 ^ length ds" .
  also from d have "\<dots> \<le> (10 * a + 10) * 10 ^ length ds"
    by (intro mult_right_mono) simp_all
  also have "\<dots> = (a + 1) * 10 ^ length (c # ds)" by (simp add: algebra_simps)
  finally show ?case by simp
qed

lemma parseInt_finite_digits:
  assumes "digits_of sid \<noteq> []" and "length (digits_of sid) \<le> 307"
  shows "is_fin (parseInt_digits (digits_of sid))"
proof -
  let ?ds = "digits_of sid"
  have "list_all is_digit ?ds" by (simp add: digits_of_def list_all_iff)
  from dec_val_bound [OF this, of 0] have "dec_val ?ds < 10 ^ length ?ds"
    by (simp add: dec_val_def)
  also from assms(2) have "(10::nat) ^ length ?ds \<le> 10 ^ 307"
    by (intro power_increasing) simp_all
  finally have "real (dec_val ?ds) < real (10 ^ 307)" by (simp only: of_nat_less_iff)
  moreover have "real (10 ^ 307) < 2 powi 1023" by simp
  ultimately have "\<bar>real (dec_val ?ds)\<bar> < 2 powi 1023" by simp
  from round64_finite [OF this] assms(1) show ?thesis by (simp add: parseInt_digits_def)
qed

lemma siteIndex_finite:
  assumes "is_fin (parseInt_digits (digits_of sid))"
  shows "\<exists>k. siteIndex sid = Fin (of_int k) \<and> 0 \<le> k \<and> k \<le> 9"
proof -
  from assms obtain r where r: "parseInt_digits (digits_of sid) = Fin r"
    by (cases "parseInt_digits (digits_of sid)") simp_all
  then have "round64 (real (dec_val (digits_of sid))) = Fin r"
    by (simp add: parseInt_digits_def split: if_splits)
  from round64_of_nat_integer [OF this] obtain z where z: "r = of_int z" "0 \<le> z" by blast
  have "real_of_int z / 10 = of_int z / of_int 10" by simp
  then have "\<lfloor>real_of_int z / 10\<rfloor> = z div 10" by (simp only: floor_divide_of_int_eq)
  with z(2) have t: "trunc (real_of_int z / 10) = z div 10" by (simp add: trunc_def)
  have "z - 10 * (z div 10) = z mod 10" by (simp add: minus_mult_div_eq_mod)
  then have "real_of_int (z - 10 * (z div 10)) = real_of_int (z mod 10)" by (simp only:)
  then have "real_of_int z - 10 * real_of_int (z div 10) = real_of_int (z mod 10)" by simp
  then have "siteIndex sid = Fin (of_int (z mod 10))"
    by (simp add: siteIndex_def r z(1) t)
  moreover have "0 \<le> z mod 10" and "z mod 10 \<le> 9" by simp_all
  ultimately show ?thesis by blast
qed

lemma hours_of_cases:
  "hours_of pf t = NaN \<or> (\<exists>h. hours_of pf t = Fin (of_int h))"
  by (cases t) (simp_all add: hours_of_def)

lemma baseValue_int:
  assumes "is_fin (parseInt_digits (digits_of sid))"
  shows "\<exists>z. baseValue pf sid now i = Fin (of_int z) \<and> 30 \<le> z \<and> z \<le> 175"
proof -
  from siteIndex_finite [OF assms] obtain k
    where si: "siteIndex sid = Fin (of_int k)" and k: "0 \<le> k" "k \<le> 9" by blast
  from k have "jmul (Fin (of_int k)) (Fin (of_int 5)) = Fin (of_int (k * 5))"
    by (intro jmul_ints) simp
  moreover from k have "jadd (Fin (of_int 30)) (Fin (of_int (k * 5))) = Fin (of_int (30 + k * 5))"
    by (intro jadd_ints) simp
  ultimately have base: "jadd (Fin 30) (jmul (siteIndex sid) (Fin 5)) = Fin (of_int (30 + k * 5))"
    by (simp add: si)
  from hours_of_cases [of pf "fallback_timestamp now i"] show ?thesis
  proof
    assume "hours_of pf (fallback_timestamp now i) = NaN"
    then have "baseValue pf sid now i = Fin (of_int (30 + k * 5))"
      by (simp add: baseValue_def base jle_def Let_def)
    with k show ?thesis by (intro exI [of _ "30 + k * 5"]) simp
  next
    assume "\<exists>h. hours_of pf (fallback_timestamp now i) = Fin (of_int h)"
    then obtain h where h: "hours_of pf (fallback_timestamp now i) = Fin (of_int h)" ..
    consider (morning) "7 \<le> h \<and> h \<le> 10" | (evening) "\<not> (7 \<le> h \<and> h \<le> 10)" "17 \<le> h \<and> h \<le> 20"
      | (off) "\<not> (7 \<le> h \<and> h \<le> 10)" "\<not> (17 \<le> h \<and> h \<le> 20)" by blast
    then show ?thesis
    proof cases
      case morning
      then have "jsub (Fin (of_int h)) (Fin (of_int 7)) = Fin (of_int (h - 7))"
        by (intro jsub_ints) simp
      moreover from morning have "jmul (Fin (of_int (h - 7))) (Fin (of_int 20)) = Fin (of_int ((h - 7) * 20))"
        by (intro jmul_ints) simp
      moreover from morning
      have "jadd (Fin (of_int 40)) (Fin (of_int ((h - 7) * 20))) = Fin (of_int (40 + (h - 7) * 20))"
        by (intro jadd_ints) simp
      moreover from morning k
      have "jadd (Fin (of_int (30 + k * 5))) (Fin (of_int (40 + (h - 7) * 20)))
              = Fin (of_int (30 + k * 5 + (40 + (h - 7) * 20)))"
        by (intro jadd_ints) simp
      ultimately have "baseValue pf sid now i = Fin (of_int (30 + k * 5 + (40 + (h - 7) * 20)))"
        using morning by (simp add: baseValue_def h base jle_def Let_def)
      with morning k show ?thesis
        by (intro exI [of _ "30 + k * 5 + (40 + (h - 7) * 20)"]) simp
    next
      case evening
      then have "jsub (Fin (of_int h)) (Fin (of_int 17)) = Fin (of_int (h - 17))"
        by (intro jsub_ints) simp
      moreover from evening have "jmul (Fin (of_int (h - 17))) (Fin (of_int 15)) = Fin (of_int ((h - 17) * 15))"
        by (intro jmul_ints) simp
      moreover from evening
      have "jadd (Fin (of_int 50)) (Fin (of_int ((h - 17) * 15))) = Fin (of_int (50 + (h - 17) * 15))"
        by (intro jadd_ints) simp
      moreover from evening k
      have "jadd (Fin (of_int (30 + k * 5))) (Fin (of_int (50 + (h - 17) * 15)))
              = Fin (of_int (30 + k * 5 + (50 + (h - 17) * 15)))"
        by (intro jadd_ints) simp
      ultimately have "baseValue pf sid now i = Fin (of_int (30 + k * 5 + (50 + (h - 17) * 15)))"
        using evening by (simp add: baseValue_def h base jle_def Let_def)
      with evening k show ?thesis
        by (intro exI [of _ "30 + k * 5 + (50 + (h - 17) * 15)"]) simp
    next
      case off
      then have "baseValue pf sid now i = Fin (of_int (30 + k * 5))"
        by (auto simp: baseValue_def h base jle_def Let_def)
      with k show ?thesis by (intro exI [of _ "30 + k * 5"]) simp
    qed
  qed
qed

subsection \<open>The noise\<close>

lemma fallback_value_bounds:
  assumes "is_fin (parseInt_digits (digits_of sid))" and "0 \<le> rnd i" and "rnd i < 1"
  shows "\<exists>b v. baseValue pf sid now i = Fin b
           \<and> s_value (fallback_sample pf sid now rnd i) = Fin v
           \<and> \<bar>v - b\<bar> \<le> 15 \<and> 30 \<le> b \<and> 15 \<le> v"
proof -
  from baseValue_int [OF assms(1)] obtain z
    where z: "baseValue pf sid now i = Fin (of_int z)" "30 \<le> z" "z \<le> 175" by blast
  from assms(2,3) have "of_int 0 \<le> rnd i * 30" and "rnd i * 30 \<le> of_int 30" by simp_all
  from round64_between [OF this] obtain t1
    where t1: "jmul (Fin (rnd i)) (Fin 30) = Fin t1" "0 \<le> t1" "t1 \<le> 30" by auto
  from t1(2,3) have "of_int (- 15) \<le> t1 - 15" and "t1 - 15 \<le> of_int 15" by simp_all
  from round64_between [OF this] obtain t2
    where t2: "jsub (Fin t1) (Fin 15) = Fin t2" "- 15 \<le> t2" "t2 \<le> 15"
    by (auto simp: jsub_def)
  from t2(2,3) have "of_int (z - 15) \<le> of_int z + t2" and "of_int z + t2 \<le> of_int (z + 15)"
    by simp_all
  moreover from z(2,3) have "\<bar>z - 15\<bar> < 2 ^ 53" and "\<bar>z + 15\<bar> < 2 ^ 53" by simp_all
  ultimately obtain t3
    where t3: "jadd (Fin (of_int z)) (Fin t2) = Fin t3" "of_int (z - 15) \<le> t3" "t3 \<le> of_int (z + 15)"
    using round64_between [of "z - 15" "of_int z + t2" "z + 15"] by auto
  from t3(2,3) have "of_int ((z - 15) * 100) \<le> t3 * 100" and "t3 * 100 \<le> of_int ((z + 15) * 100)"
    by simp_all
  moreover from z(2,3) have "\<bar>(z - 15) * 100\<bar> < 2 ^ 53" and "\<bar>(z + 15) * 100\<bar> < 2 ^ 53"
    by simp_all
  ultimately obtain t4
    where t4: "jmul (Fin t3) (Fin 100) = Fin t4"
      "of_int ((z - 15) * 100) \<le> t4" "t4 \<le> of_int ((z + 15) * 100)"
    using round64_between [of "(z - 15) * 100" "t3 * 100" "(z + 15) * 100"] by auto
  define q where "q = \<lfloor>t4 + 1 / 2\<rfloor>"
  from t4(2) have "of_int ((z - 15) * 100) \<le> t4 + 1 / 2" by linarith
  then have q1: "(z - 15) * 100 \<le> q" unfolding q_def by (simp only: le_floor_iff)
  from t4(3) have "t4 + 1 / 2 < of_int ((z + 15) * 100) + 1" by linarith
  then have "q < (z + 15) * 100 + 1" unfolding q_def by (simp only: floor_less_iff of_int_add of_int_1)
  then have q2: "q \<le> (z + 15) * 100" by simp
  from q1 have "real_of_int ((z - 15) * 100) \<le> of_int q" by (simp only: of_int_le_iff)
  then have a: "of_int (z - 15) \<le> real_of_int q / 100" by simp
  from q2 have "real_of_int q \<le> of_int ((z + 15) * 100)" by (simp only: of_int_le_iff)
  then have b: "real_of_int q / 100 \<le> of_int (z + 15)" by simp
  from z(2,3) have "\<bar>z - 15\<bar> < 2 ^ 53" and "\<bar>z + 15\<bar> < 2 ^ 53" by simp_all
  from round64_between [OF a b this] obtain v
    where v: "jdiv (Fin (of_int q)) (Fin 100) = Fin v" "of_int (z - 15) \<le> v" "v \<le> of_int (z + 15)"
    by auto
  have val: "s_value (fallback_sample pf sid now rnd i) = Fin v"
    by (simp only: fallback_sample_def sample.select_convs z(1) t1(1) t2(1) t3(1) t4(1)
        jround.simps q_def [symmetric] v(1))
  from v(2,3) have "\<bar>v - of_int z\<bar> \<le> 15" by simp
  moreover from v(2) z(2) have "15 \<le> v" by simp
  moreover from z(2) have "(30::real) \<le> of_int z" by simp
  ultimately show ?thesis using z(1) val by blast
qed

subsection \<open>Claim C9\<close>

lemma fallback_sample_cong:
  "rnd' i = rnd i \<Longrightarrow> fallback_sample pf sid now rnd' i = fallback_sample pf sid now rnd i"
  by (simp add: fallback_sample_def)

lemma fallback_data_cong:
  assumes "\<forall>i<24. rnd' i = rnd i"
  shows "fallback_data pf sid now rnd' = fallback_data pf sid now rnd"
  unfolding fallback_data_map
proof (rule map_cong [OF refl])
  fix i :: nat
  assume "i \<in> set [0..<24]"
  with assms have "rnd' i = rnd i" by simp
  then show "fallback_sample pf sid now rnd' i = fallback_sample pf sid now rnd i"
    by (rule fallback_sample_cong)
qed

lemma demo_site_digits: "digits_of ''site_104'' = ''104''"
  by (simp add: digits_of_def is_digit_def)

lemma demo_parseInt: "parseInt_digits ''104'' = Fin 104"
  by (simp add: parseInt_digits_def dec_val_def digit_val_def)

lemma demo_siteIndex: "siteIndex ''site_104'' = Fin 4"
  by (simp add: siteIndex_def demo_site_digits demo_parseInt trunc_def)

lemma demo_first_timestamp: "fallback_timestamp 1700000000000 0 = Some 1699917200000"
  by (simp add: fallback_timestamp_def time_clip_def)

lemma demo_first_hours: "hours_of demo_pf (Some 1699917200000) = Fin 23"
  by (simp add: hours_of_def demo_pf_def utc_hours_def)

lemma demo_first_base:
  "baseValue demo_pf ''site_104'' 1700000000000 0 = Fin 50"
  by (simp add: baseValue_def demo_siteIndex demo_first_timestamp demo_first_hours jle_def Let_def)

lemma demo_first_low:
  "s_value (fallback_sample demo_pf ''site_104'' 1700000000000 rnd_low 0) = Fin 35"
  by (simp add: fallback_sample_def demo_first_base rnd_low_def jsub_def)

lemma demo_first_mid:
  "s_value (fallback_sample demo_pf ''site_104'' 1700000000000 rnd_mid 0) = Fin 50"
  by (simp add: fallback_sample_def demo_first_base rnd_mid_def jsub_def)

text \<open>
  Claim C9 calls the generator a pure function of the site and the clock. Every sample
  adds \<open>Math.random() * 30 - 15\<close>: with the same site and clock, draws of 0 and of 1/2
  give first values 35 and 50.
\<close>

theorem C9_counterexample:
  "s_value (fallback_data demo_pf ''site_104'' 1700000000000 rnd_low ! 0) = Fin 35
   \<and> s_value (fallback_data demo_pf ''site_104'' 1700000000000 rnd_mid ! 0) = Fin 50
   \<and> fallback_data demo_pf ''site_104'' 1700000000000 rnd_low
       \<noteq> fallback_data demo_pf ''site_104'' 1700000000000 rnd_mid"
proof -
  have a: "s_value (fallback_data demo_pf ''site_104'' 1700000000000 rnd_low ! 0) = Fin 35"
    by (simp only: nth_fallback_data [of 0, simplified] demo_first_low)
  have b: "s_value (fallback_data demo_pf ''site_104'' 1700000000000 rnd_mid ! 0) = Fin 50"
    by (simp only: nth_fallback_data [of 0, simplified] demo_first_mid)
  from a b have "fallback_data demo_pf ''site_104'' 1700000000000 rnd_low
       \<noteq> fallback_data demo_pf ''site_104'' 1700000000000 rnd_mid"
    by auto
  with a b show ?thesis by simp
qed

lemma demo_parseInt_finite: "is_fin (parseInt_digits (digits_of ''site_104''))"
  by (simp add: demo_site_digits demo_parseInt)

lemma rnd_mid_range: "\<forall>i<24. 0 \<le> rnd_mid i \<and> rnd_mid i < 1"
  by (simp add: rnd_mid_def)

text \<open>
  Claim C9, amended. With the platform (time zone, locale) fixed, the series is a
  function of the site, the clock and the 24 values \<open>Math.random()\<close> returns:
  invocations that see the same draws give the identical series of 24 samples. When
  \<open>parseInt\<close> reads the digits of the site identifier as a finite number (as it does
  for 1 to 307 digits) and the draws lie in [0, 1), every value is within 15 of its
  baseline.
\<close>

theorem C9_fallback_given_draws:
  assumes "is_fin (parseInt_digits (digits_of sid))"
    and "\<forall>i<24. 0 \<le> rnd i \<and> rnd i < 1"
    and "\<forall>i<24. rnd' i = rnd i"
  shows "fallback_data pf sid now rnd' = fallback_data pf sid now rnd
       \<and> length (fallback_data pf sid now rnd) = 24
       \<and> (\<forall>i<24. \<exists>b v. baseValue pf sid now i = Fin b
                     \<and> s_value (fallback_data pf sid now rnd ! i) = Fin v
                     \<and> \<bar>v - b\<bar> \<le> 15)"
proof (intro conjI allI impI)
  show "fallback_data pf sid now rnd' = fallback_data pf sid now rnd"
    by (rule fallback_data_cong [OF assms(3)])
  show "length (fallback_data pf sid now rnd) = 24" by (rule length_fallback_data)
next
  fix i :: nat
  assume i: "i < 24"
  with assms(2) have "0 \<le> rnd i" and "rnd i < 1" by simp_all
  from fallback_value_bounds [where rnd = rnd and i = i, OF assms(1) this, of pf now]
  show "\<exists>b v. baseValue pf sid now i = Fin b
          \<and> s_value (fallback_data pf sid now rnd ! i) = Fin v \<and> \<bar>v - b\<bar> \<le> 15"
    by (simp only: nth_fallback_data [OF i]) blast
qed

text \<open>
  Claim C9, amended, for the site \<open>site_104\<close> with all draws 1/2.
\<close>

theorem C9_witness:
  "fallback_data demo_pf ''site_104'' 1700000000000 (\<lambda>i. if i < 24 then rnd_mid i else 0)
     = fallback_data demo_pf ''site_104'' 1700000000000 rnd_mid
   \<and> length (fallback_data demo_pf ''site_104'' 1700000000000 rnd_mid) = 24
   \<and> (\<exists>b v. baseValue demo_pf ''site_104'' 1700000000000 0 = Fin b
         \<and> s_value (fallback_data demo_pf ''site_104'' 1700000000000 rnd_mid ! 0) = Fin v
         \<and> \<bar>v - b\<bar> \<le> 15)"
proof -
  have c: "\<forall>i<24. (\<lambda>i. if i < 24 then rnd_mid i else 0) i = rnd_mid i" by simp
  from C9_fallback_given_draws [OF demo_parseInt_finite rnd_mid_range c, of demo_pf 1700000000000]
  show ?thesis by simp
qed

subsection \<open>Claim C10\<close>

lemma dec_val_nines:
  "foldl (\<lambda>n c. 10 * n + digit_val c) a (replicate k (CHR ''9'')) = (a + 1) * 10 ^ k - 1"
proof (induction k arbitrary: a)
  case 0
  then show ?case by simp
next
  case (Suc k)
  have "digit_val (CHR ''9'') = 9" by (simp add: digit_val_def)
  then have "foldl (\<lambda>n c. 10 * n + digit_val c) a (replicate (Suc k) (CHR ''9''))
      = (10 * a + 9 + 1) * 10 ^ k - 1"
    by (simp add: Suc.IH)
  also have "\<dots> = (a + 1) * 10 ^ Suc k - 1" by (simp add: algebra_simps)
  finally show ?case .
qed

lemma long_site_digits: "digits_of long_site = replicate 400 (CHR ''9'')"
  by (simp add: digits_of_def long_site_def is_digit_def)

lemma long_site_parseInt: "parseInt_digits (digits_of long_site) = PInf"
proof -
  have "dec_val (replicate 400 (CHR ''9'')) = 10 ^ 400 - 1"
    using dec_val_nines [of 0 400] by (simp add: dec_val_def)
  moreover have "2 powi 1024 \<le> real (10 ^ 400 - 1)" by simp
  ultimately have "round64 (real (dec_val (replicate 400 (CHR ''9'')))) = PInf"
    by (simp only: round64_overflow)
  then show ?thesis by (simp add: long_site_digits parseInt_digits_def)
qed

lemma long_site_base: "baseValue pf long_site now i = NaN"
proof -
  have "siteIndex long_site = NaN" by (simp add: siteIndex_def long_site_parseInt)
  then have "jadd (Fin 30) (jmul (siteIndex long_site) (Fin 5)) = NaN" by simp
  then show ?thesis by (simp add: baseValue_def Let_def)
qed

lemma long_site_value: "s_value (fallback_sample pf long_site now rnd i) = NaN"
  by (simp add: fallback_sample_def long_site_base)

lemma fallback_timestamp_valid:
  assumes "i < 24" and "- 8640000000000000 + 82800000 \<le> now" and "now \<le> 8640000000000000"
  shows "fallback_timestamp now i = Some (now - (23 - int i) * 3600000)"
  using assms by (simp add: fallback_timestamp_def time_clip_def)

lemma fallback_sample_ts:
  assumes "i < 24" and "- 8640000000000000 + 82800000 \<le> now" and "now \<le> 8640000000000000"
  shows "valid_sample (fallback_sample pf sid now rnd i)"
    and "ts_ms (fallback_sample pf sid now rnd i) = now - (23 - int i) * 3600000"
  by (simp_all add: fallback_sample_def valid_sample_def ts_ms_def
      fallback_timestamp_valid [OF assms])

text \<open>
  Claim C10 covers every site identifier with a decimal digit. \<open>parseInt\<close> returns
  \<open>Infinity\<close> for the 400 digits of \<open>long_site\<close>, \<open>Infinity % 10\<close> is \<open>NaN\<close>, and
  all 24 values are \<open>NaN\<close>.
\<close>

theorem C10_counterexample:
  "digits_of long_site = replicate 400 (CHR ''9'')
   \<and> parseInt_digits (digits_of long_site) = PInf
   \<and> map s_value (fallback_data demo_pf long_site 1700000000000 rnd_mid) = replicate 24 NaN"
proof -
  have "map s_value (fallback_data demo_pf long_site 1700000000000 rnd_mid)
      = map (\<lambda>i. NaN) [0..<24]"
    by (simp only: fallback_data_map map_map comp_def long_site_value)
  also have "\<dots> = replicate 24 NaN" by (simp only: map_replicate_const) simp
  finally have "map s_value (fallback_data demo_pf long_site 1700000000000 rnd_mid)
      = replicate 24 NaN" .
  with long_site_digits long_site_parseInt show ?thesis by blast
qed

text \<open>
  Claim C10, amended. When \<open>parseInt\<close> reads the digits of the site identifier as a
  finite number (as it does for 1 to 307 digits), the draws lie in [0, 1) and the last
  23 hours before the clock are representable dates, the fallback series has 24 samples
  with valid, strictly ascending timestamps, every value is a finite number of at least
  15, and every baseline is at least 30.
\<close>

theorem C10_fallback_series_invariant:
  assumes "is_fin (parseInt_digits (digits_of sid))"
    and "\<forall>i<24. 0 \<le> rnd i \<and> rnd i < 1"
    and "- 8640000000000000 + 82800000 \<le> now" and "now \<le> 8640000000000000"
  shows "length (fallback_data pf sid now rnd) = 24
       \<and> list_all valid_sample (fallback_data pf sid now rnd)
       \<and> sorted_wrt (\<lambda>a b. ts_ms a < ts_ms b) (fallback_data pf sid now rnd)
       \<and> (\<forall>s\<in>set (fallback_data pf sid now rnd). \<exists>v. s_value s = Fin v \<and> 15 \<le> v)
       \<and> (\<forall>i<24. \<exists>b. baseValue pf sid now i = Fin b \<and> 30 \<le> b)"
proof (intro conjI)
  show "length (fallback_data pf sid now rnd) = 24" by (rule length_fallback_data)
  show "\<forall>i<24. \<exists>b. baseValue pf sid now i = Fin b \<and> 30 \<le> b"
  proof (intro allI impI)
    fix i :: nat
    assume "i < 24"
    with assms(2) have "0 \<le> rnd i" and "rnd i < 1" by simp_all
    from fallback_value_bounds [where rnd = rnd and i = i, OF assms(1) this, of pf now]
    show "\<exists>b. baseValue pf sid now i = Fin b \<and> 30 \<le> b" by blast
  qed
  show "list_all valid_sample (fallback_data pf sid now rnd)"
    unfolding fallback_data_map list_all_iff
    using fallback_sample_ts(1) [OF _ assms(3,4)] by auto
  have "sorted_wrt (\<lambda>i j. ts_ms (fallback_sample pf sid now rnd i)
                         < ts_ms (fallback_sample pf sid now rnd j)) [0..<24]"
  proof (rule sorted_wrt_mono_rel [OF _ sorted_wrt_upt])
    fix i j :: nat
    assume "i \<in> set [0..<24]" "j \<in> set [0..<24]" "i < j"
    then show "ts_ms (fallback_sample pf sid now rnd i) < ts_ms (fallback_sample pf sid now rnd j)"
      by (simp add: fallback_sample_ts(2) [OF _ assms(3,4)])
  qed
  then show "sorted_wrt (\<lambda>a b. ts_ms a < ts_ms b) (fallback_data pf sid now rnd)"
    by (simp only: fallback_data_map sorted_wrt_map)
  show "\<forall>s\<in>set (fallback_data pf sid now rnd). \<exists>v. s_value s = Fin v \<and> 15 \<le> v"
  proof
    fix s
    assume "s \<in> set (fallback_data pf sid now rnd)"
    then obtain i where i: "i < 24" and s: "s = fallback_sample pf sid now rnd i"
      unfolding fallback_data_map by auto
    from i assms(2) have "0 \<le> rnd i" and "rnd i < 1" by simp_all
    from fallback_value_bounds [where rnd = rnd and i = i, OF assms(1) this, of pf now] s
    show "\<exists>v. s_value s = Fin v \<and> 15 \<le> v" by blast
  qed
qed

text \<open>
  Claim C10, amended, for the site \<open>site_104\<close> at 1700000000000 ms with all draws 1/2.
\<close>

theorem C10_witness:
  "is_fin (parseInt_digits (digits_of ''site_104''))
   \<and> length (fallback_data demo_pf ''site_104'' 1700000000000 rnd_mid) = 24
   \<and> list_all valid_sample (fallback_data demo_pf ''site_104'' 1700000000000 rnd_mid)
   \<and> sorted_wrt (\<lambda>a b. ts_ms a < ts_ms b)
        (fallback_data demo_pf ''site_104'' 1700000000000 rnd_mid)
   \<and> (\<exists>v. s_value (fallback_data demo_pf ''site_104'' 1700000000000 rnd_mid ! 0) = Fin v
         \<and> 15 \<le> v)"
proof -
  have a: "- 8640000000000000 + 82800000 \<le> (1700000000000 :: int)" by simp
  have b: "(1700000000000 :: int) \<le> 8640000000000000" by simp
  note inst = C10_fallback_series_invariant [OF demo_parseInt_finite rnd_mid_range a b, of demo_pf]
  have "fallback_data demo_pf ''site_104'' 1700000000000 rnd_mid ! 0
          \<in> set (fallback_data demo_pf ''site_104'' 1700000000000 rnd_mid)"
    by (rule nth_mem) (simp add: length_fallback_data)
  with inst demo_parseInt_finite show ?thesis by blast
qed

section \<open>The fetch cycle and the refresh effects: properties\<close>

subsection \<open>Claim C5\<close>

lemma fallback_data_nonempty: "fallback_data pf sid now rnd \<noteq> []"
  using length_fallback_data [of pf sid now rnd] by auto

lemma detectAnomalies_frame:
  "graphData (detectAnomalies data st) = graphData st"
  "toasts (detectAnomalies data st) = toasts st"
  "loading (detectAnomalies data st) = loading st"
  "lastUpdated (detectAnomalies data st) = lastUpdated st"
  "siteId (detectAnomalies data st) = siteId st"
  by (simp_all add: detectAnomalies_def)

lemma detectAnomalies_result:
  "data \<noteq> [] \<Longrightarrow> anomalies (detectAnomalies data st) = anomalies (detectAnomalies data st')"
  by (simp add: detectAnomalies_def)

text \<open>
  Claim C5. When the request is rejected (and a site is selected, so that a request is
  made), the cycle ends in a state: the series is the fallback series of 24 samples,
  the anomaly list is what the detector computes on it, exactly one failure toast is
  appended, and loading is off.
\<close>

theorem C5_rejected_fetch_falls_back:
  assumes "siteId st \<noteq> []"
  shows "graphData (fetchLiveData pf Rejected now rnd upd st) = fallback_data pf (siteId st) now rnd
       \<and> length (graphData (fetchLiveData pf Rejected now rnd upd st)) = 24
       \<and> anomalies (fetchLiveData pf Rejected now rnd upd st)
           = anomalies (detectAnomalies (fallback_data pf (siteId st) now rnd) st)
       \<and> toasts (fetchLiveData pf Rejected now rnd upd st) = toasts st @ [toast_failed]
       \<and> loading (fetchLiveData pf Rejected now rnd upd st) = False
       \<and> lastUpdated (fetchLiveData pf Rejected now rnd upd st) = Some upd"
proof -
  let ?data = "fallback_data pf (siteId st) now rnd"
  let ?st2 = "st\<lparr>loading := True, toasts := toasts st @ [toast_failed], loading := False,
                 graphData := ?data, lastUpdated := Some upd\<rparr>"
  from assms have run: "fetchLiveData pf Rejected now rnd upd st = detectAnomalies ?data ?st2"
    by (simp add: fetchLiveData_def catch_block_def generateFallbackData_def Let_def)
  have "anomalies (detectAnomalies ?data ?st2) = anomalies (detectAnomalies ?data st)"
    by (rule detectAnomalies_result [OF fallback_data_nonempty])
  then show ?thesis
    by (simp add: run detectAnomalies_frame length_fallback_data)
qed

text \<open>
  Claim C5 for a rejected request from the initial state.
\<close>

theorem C5_witness:
  "siteId st0 \<noteq> []
   \<and> length (graphData (fetchLiveData demo_pf Rejected 1700000000000 rnd_mid 1700000000001 st0)) = 24
   \<and> toasts (fetchLiveData demo_pf Rejected 1700000000000 rnd_mid 1700000000001 st0)
       = [toast_failed]
   \<and> loading (fetchLiveData demo_pf Rejected 1700000000000 rnd_mid 1700000000001 st0) = False"
proof -
  have a: "siteId st0 \<noteq> []" by (simp add: st0_def)
  have b: "toasts st0 = []" by (simp add: st0_def)
  note run = C5_rejected_fetch_falls_back [OF a, of demo_pf 1700000000000 rnd_mid 1700000000001]
  from run have len:
    "length (graphData (fetchLiveData demo_pf Rejected 1700000000000 rnd_mid 1700000000001 st0)) = 24"
    by blast
  from run have "toasts (fetchLiveData demo_pf Rejected 1700000000000 rnd_mid 1700000000001 st0)
      = toasts st0 @ [toast_failed]" by blast
  then have ts: "toasts (fetchLiveData demo_pf Rejected 1700000000000 rnd_mid 1700000000001 st0)
      = [toast_failed]" by (simp only: b append_Nil)
  from run have ld:
    "loading (fetchLiveData demo_pf Rejected 1700000000000 rnd_mid 1700000000001 st0) = False"
    by blast
  from a len ts ld show ?thesis by blast
qed

subsection \<open>Claim C8\<close>

text \<open>
  Claim C8 covers a response that parses and holds no sample. An empty array passes the
  test \<open>response.data && Array.isArray(response.data)\<close>: the series is replaced by the
  empty series and no warning is sent.
\<close>

theorem C8_counterexample:
  "graphData (st0\<lparr>graphData := [smp 17 16]\<rparr>) = [smp 17 16]
   \<and> graphData (fetchLiveData demo_pf (Resolved (JArr [])) 1700000000000 rnd_mid 1700000000001
        (st0\<lparr>graphData := [smp 17 16]\<rparr>)) = []
   \<and> toasts (fetchLiveData demo_pf (Resolved (JArr [])) 1700000000000 rnd_mid 1700000000001
        (st0\<lparr>graphData := [smp 17 16]\<rparr>)) = []"
  by (simp add: fetchLiveData_def st0_def normalize_def sort_by_def slice_last_def
      detectAnomalies_def Let_def)

text \<open>
  Claim C8, amended. When \<open>response.data\<close> is not an array, the warning toast is
  appended, no fallback is generated, and series, anomaly list and update time are left
  unchanged. When it is an empty array, no toast is sent; the series becomes empty, the
  update time is set and the anomaly list is left unchanged.
\<close>

theorem C8_non_array_response_warns:
  assumes "siteId st \<noteq> []"
  shows "(\<not> is_array d \<longrightarrow>
            fetchLiveData pf (Resolved d) now rnd upd st
              = st\<lparr>toasts := toasts st @ [toast_no_data (siteId st)], loading := False\<rparr>)
       \<and> fetchLiveData pf (Resolved (JArr [])) now rnd upd st
              = st\<lparr>graphData := [], lastUpdated := Some upd, loading := False\<rparr>"
proof (intro conjI impI)
  assume "\<not> is_array d"
  with assms show "fetchLiveData pf (Resolved d) now rnd upd st
      = st\<lparr>toasts := toasts st @ [toast_no_data (siteId st)], loading := False\<rparr>"
    by (cases d) (simp_all add: fetchLiveData_def Let_def)
next
  from assms show "fetchLiveData pf (Resolved (JArr [])) now rnd upd st
      = st\<lparr>graphData := [], lastUpdated := Some upd, loading := False\<rparr>"
    by (simp add: fetchLiveData_def normalize_def sort_by_def slice_last_def
        detectAnomalies_def Let_def)
qed

text \<open>
  Claim C8, amended, for a \<open>null\<close> body arriving while a series is shown.
\<close>

theorem C8_witness:
  "siteId st0 \<noteq> [] \<and> \<not> is_array JNull
   \<and> fetchLiveData demo_pf (Resolved JNull) 1700000000000 rnd_mid 1700000000001
        (st0\<lparr>graphData := [smp 17 16]\<rparr>)
       = st0\<lparr>graphData := [smp 17 16], toasts := [toast_no_data ''site_104'']\<rparr>"
proof -
  have a: "siteId (st0\<lparr>graphData := [smp 17 16]\<rparr>) \<noteq> []" by (simp add: st0_def)
  from C8_non_array_response_warns [OF a, of JNull demo_pf 1700000000000 rnd_mid 1700000000001]
  show ?thesis by (simp add: st0_def)
qed

subsection \<open>Claim C4\<close>

text \<open>
  Claim C4 asks for at most one active interval and one fetch per parameter change. The
  page declares the refresh effect twice: after mounting, two intervals are active and
  two fetches were made; one parameter change clears both intervals, starts two new ones
  and makes two more fetches.
\<close>

theorem C4_two_timers_two_fetches:
  "timers (mount sched0) = [0, 1]
   \<and> fetches (mount sched0) = 2
   \<and> timers (param_change (mount sched0)) = [2, 3]
   \<and> fetches (param_change (mount sched0)) = 4"
  by (simp add: mount_def param_change_def effectA_def effectB_def refresh_body_def
      setInterval_def run_cleanups_def clearInterval_def sched0_def)

end
